theory Spec2Isabelle
  imports Main "HOL-Library.Char_ord" "HOL-Library.List_Lexorder"
begin

section \<open>Values, rows and JavaScript containers\<close>

text \<open>
  A flat row is a JavaScript object whose values are scalars. Numbers are modelled as
  integers (no NaN, no fractions), which is enough for identity values. Strict equality
  \<open>===\<close> and the key equality of \<open>Map\<close> coincide with HOL equality on these scalars.
\<close>

datatype scalar = Undefined | Null | Str string | Num int | Bool bool

type_synonym row = "(string \<times> scalar) list"

text \<open>Hydrated output: nested objects and arrays over the scalars.\<close>

datatype jsval = Prim scalar | Obj "(string \<times> jsval) list" | Arr "jsval list"

type_synonym obj = "(string \<times> jsval) list"

type_synonym parents = "(string \<times> obj) list"

text \<open>JavaScript truthiness of a scalar: \<open>!v\<close> is \<open>\<not> truthy v\<close>.\<close>

fun truthy :: "scalar \<Rightarrow> bool" where
  "truthy Undefined = False"
| "truthy Null = False"
| "truthy (Str s) = (s \<noteq> [])"
| "truthy (Num n) = (n \<noteq> 0)"
| "truthy (Bool b) = b"

text \<open>\<open>v == null\<close> holds for \<open>null\<close> and \<open>undefined\<close>.\<close>

fun nullish :: "scalar \<Rightarrow> bool" where
  "nullish Undefined = True"
| "nullish Null = True"
| "nullish _ = False"

text \<open>
  A \<open>Map\<close> and a plain object are association lists in insertion order with distinct
  keys. \<open>Map.set\<close> and property assignment replace the value of an existing key where it
  stands and append a new key at the end.
\<close>

fun mapSet :: "('k \<times> 'v) list \<Rightarrow> 'k \<Rightarrow> 'v \<Rightarrow> ('k \<times> 'v) list" where
  "mapSet [] k v = [(k, v)]"
| "mapSet ((k', v') # m) k v = (if k' = k then (k, v) # m else (k', v') # mapSet m k v)"

definition mapHas :: "('k \<times> 'v) list \<Rightarrow> 'k \<Rightarrow> bool" where
  "mapHas m k = (map_of m k \<noteq> None)"

text \<open>\<open>row[key]\<close>: a missing property reads as \<open>undefined\<close>.\<close>

definition rowGet :: "row \<Rightarrow> string \<Rightarrow> scalar" where
  "rowGet r k = (case map_of r k of None \<Rightarrow> Undefined | Some v \<Rightarrow> v)"

text \<open>\<open>k.startsWith(p)\<close>\<close>

definition startsWith :: "string \<Rightarrow> string \<Rightarrow> bool" where
  "startsWith k p = (take (length p) k = p)"

datatype error =
    SchemaModelNotFoundError
  | NodeModelNotFoundError
  | AssociationNotDeclaredError
  | BelongsToManyThroughModelMissingError
  | SchemaAliasMissingError
  | HasManyMissingAliasError
  | ThroughModelNotRegisteredError
  | ModelNotRegisteredError
  | InternalCloneModelMissingError
  | PrefixedPrimaryKeyNotFoundInFlatRowsError
  | AllFlatRowsMustHaveSamePropertiesError
  | ModelIsMissingAliasError

section \<open>Models and associations\<close>

text \<open>
  An attribute definition is opaque to the registry except for one test:
  \<open>value.type.constructor.name === 'VIRTUAL'\<close>. \<open>Typed n\<close> is an object whose
  \<open>type.constructor.name\<close> is \<open>n\<close>; \<open>Plain\<close> is any other value.
\<close>

datatype attrdef = Plain | Typed string

text \<open>
  The attributes of a model are a plain object, or, when the constructor had to add the
  primary key, a \<open>Map\<close> (the constructor stores the \<open>Map\<close> itself). \<open>Object.keys\<close> and
  \<open>Object.entries\<close> of a \<open>Map\<close> are empty.
\<close>

datatype attributes = PlainObject "(string \<times> attrdef) list" | MapObject "(string \<times> attrdef) list"

fun objectEntries :: "attributes \<Rightarrow> (string \<times> attrdef) list" where
  "objectEntries (PlainObject kvs) = kvs"
| "objectEntries (MapObject kvs) = []"

definition objectKeys :: "attributes \<Rightarrow> string list" where
  "objectKeys a = map fst (objectEntries a)"

record HydraModel =
  hm_name :: string
  hm_attributes :: attributes
  hm_primaryKey :: string

definition filterValidAttributes :: "attributes \<Rightarrow> (string \<times> attrdef) list" where
  "filterValidAttributes a = filter (\<lambda>(k, v). v \<noteq> Typed ''VIRTUAL'') (objectEntries a)"

text \<open>\<open>new HydraModel(name, attributes, primaryKey?)\<close>\<close>

definition newHydraModel :: "string \<Rightarrow> attributes \<Rightarrow> string option \<Rightarrow> HydraModel" where
  "newHydraModel name attrs primaryKey =
     (let pk = (case primaryKey of None \<Rightarrow> ''code'' | Some k \<Rightarrow> k);
          filtered = filterValidAttributes attrs
      in \<lparr> hm_name = name,
           hm_attributes = (if mapHas filtered pk then PlainObject filtered
                            else MapObject (mapSet filtered pk Plain)),
           hm_primaryKey = pk \<rparr>)"

text \<open>
  \<open>IHydrationModelWithAssociations\<close>: the wrapper \<open>getModel\<close> returns. Its
  \<open>associations\<close> field is a reference to a live \<open>Map\<close> of the registry.
\<close>

record imodel =
  m_name :: string
  m_attributes :: attributes
  m_primaryKey :: string
  m_associations :: nat

datatype associationType = BelongsTo | HasOne | HasMany | BelongsToMany

record through =
  t_model :: imodel
  t_alias :: "string option"
  t_foreignKey :: string
  t_otherKey :: string

record association =
  a_as :: string
  a_associationType :: associationType
  a_foreignKey :: "string option"
  a_source :: imodel
  a_sourceKey :: string
  a_target :: imodel
  a_targetKey :: string
  a_through :: "through option"

section \<open>The registry and its store\<close>

text \<open>
  The registry mutates \<open>Map\<close> objects that are shared by reference, so the maps live in
  an explicit store. A reference is an address; \<open>new Map()\<close> takes the next unused
  address. There is one store per kind of map: the \<open>_models\<close> map of a registry, its
  outer \<open>_associations\<close> map (model name to a reference to an inner map), and the inner
  maps (association name to association).
\<close>

record heap =
  modelMaps :: "nat \<Rightarrow> (string \<times> HydraModel) list"
  outerMaps :: "nat \<Rightarrow> (string \<times> nat) list"
  innerMaps :: "nat \<Rightarrow> (string \<times> association) list"
  nextRef :: nat

definition newModelMap :: "heap \<Rightarrow> nat \<times> heap" where
  "newModelMap h =
     (nextRef h, h\<lparr> modelMaps := (modelMaps h)(nextRef h := []), nextRef := Suc (nextRef h) \<rparr>)"

definition newOuterMap :: "heap \<Rightarrow> nat \<times> heap" where
  "newOuterMap h =
     (nextRef h, h\<lparr> outerMaps := (outerMaps h)(nextRef h := []), nextRef := Suc (nextRef h) \<rparr>)"

definition newInnerMap :: "heap \<Rightarrow> nat \<times> heap" where
  "newInnerMap h =
     (nextRef h, h\<lparr> innerMaps := (innerMaps h)(nextRef h := []), nextRef := Suc (nextRef h) \<rparr>)"

text \<open>\<open>HydraModelerOptions\<close> as passed to the constructor, and as stored by it.\<close>

record HydraModelerOptions =
  o_defaultPrimaryKey :: "string option"
  o_defaultForeignKeySuffix :: "string option"

record options =
  defaultPrimaryKey :: string
  defaultForeignKeySuffix :: string

text \<open>
  A \<open>HydraModeler\<close> object: its fields \<open>_models\<close> and \<open>_associations\<close> hold references
  that are fixed once the constructor returns.
\<close>

record HydraModeler =
  mo_models :: nat
  mo_associations :: nat
  mo_options :: options

text \<open>\<open>x || d\<close> on an optional string: \<open>undefined\<close> and the empty string give \<open>d\<close>.\<close>

definition orDefault :: "string option \<Rightarrow> string \<Rightarrow> string" where
  "orDefault x d = (case x of None \<Rightarrow> d | Some s \<Rightarrow> if s = [] then d else s)"

text \<open>\<open>x ?? d\<close> on an optional string: only \<open>undefined\<close> gives \<open>d\<close>.\<close>

definition orElse :: "string option \<Rightarrow> string \<Rightarrow> string" where
  "orElse x d = (case x of None \<Rightarrow> d | Some s \<Rightarrow> s)"

text \<open>\<open>new HydraModeler(options?)\<close>: the field initialisers create the two maps.\<close>

definition newHydraModeler :: "HydraModelerOptions option \<Rightarrow> heap \<Rightarrow> HydraModeler \<times> heap" where
  "newHydraModeler hydraOrOptions h =
     (let (ms, h1) = newModelMap h;
          (as, h2) = newOuterMap h1;
          opts = (case hydraOrOptions of
                    None \<Rightarrow> \<lparr> o_defaultPrimaryKey = None, o_defaultForeignKeySuffix = None \<rparr>
                  | Some x \<Rightarrow> x)
      in (\<lparr> mo_models = ms, mo_associations = as,
            mo_options = \<lparr> defaultPrimaryKey = orDefault (o_defaultPrimaryKey opts) ''code'',
                           defaultForeignKeySuffix = orDefault (o_defaultForeignKeySuffix opts) ''Code'' \<rparr> \<rparr>,
          h2))"

definition ensureAssocMap :: "HydraModeler \<Rightarrow> string \<Rightarrow> heap \<Rightarrow> nat \<times> heap" where
  "ensureAssocMap this key h =
     (case map_of (outerMaps h (mo_associations this)) key of
        Some r \<Rightarrow> (r, h)
      | None \<Rightarrow>
          (let (r, h1) = newInnerMap h
           in (r, h1\<lparr> outerMaps := (outerMaps h1)
                       (mo_associations this := mapSet (outerMaps h1 (mo_associations this)) key r) \<rparr>)))"

text \<open>
  \<open>getModel(name, {noThrow})\<close>: \<open>Inr None\<close> is the \<open>null\<close> returned under \<open>noThrow\<close>.
\<close>

definition getModel :: "HydraModeler \<Rightarrow> string \<Rightarrow> bool \<Rightarrow> heap \<Rightarrow> (error + imodel option) \<times> heap" where
  "getModel this name noThrow h =
     (case map_of (modelMaps h (mo_models this)) name of
        None \<Rightarrow> (if noThrow then Inr None else Inl ModelNotRegisteredError, h)
      | Some model \<Rightarrow>
          (let (r, h1) = ensureAssocMap this name h
           in (Inr (Some \<lparr> m_name = hm_name model, m_attributes = hm_attributes model,
                           m_primaryKey = hm_primaryKey model, m_associations = r \<rparr>), h1)))"

definition getAssociations :: "HydraModeler \<Rightarrow> string \<Rightarrow> heap \<Rightarrow> nat \<times> heap" where
  "getAssociations this modelName h = ensureAssocMap this modelName h"

definition getAssociation :: "HydraModeler \<Rightarrow> string \<Rightarrow> string \<Rightarrow> heap \<Rightarrow> association option \<times> heap" where
  "getAssociation this modelName associationName h =
     (let (r, h1) = getAssociations this modelName h
      in (map_of (innerMaps h1 r) associationName, h1))"

text \<open>\<open>_addModel(name, attributes, primaryKey?)\<close>\<close>

definition addModel :: "HydraModeler \<Rightarrow> string \<Rightarrow> attributes \<Rightarrow> string option \<Rightarrow> heap \<Rightarrow> heap" where
  "addModel this name attrs primaryKey h =
     (if mapHas (modelMaps h (mo_models this)) name then h
      else
        (let model = newHydraModel name attrs primaryKey;
             h1 = h\<lparr> modelMaps := (modelMaps h)
                       (mo_models this := mapSet (modelMaps h (mo_models this)) name model) \<rparr>;
             (r, h2) = newInnerMap h1
         in h2\<lparr> outerMaps := (outerMaps h2)
                   (mo_associations this := mapSet (outerMaps h2 (mo_associations this)) name r) \<rparr>))"

text \<open>\<open>addModels(fn)\<close>, with \<open>fn\<close> given by the \<open>add\<close> calls it makes, in order.\<close>

definition addModels :: "HydraModeler \<Rightarrow> (string \<times> attributes \<times> string option) list \<Rightarrow> heap \<Rightarrow> heap" where
  "addModels this adds h = foldl (\<lambda>h' (name, attrs, primaryKey). addModel this name attrs primaryKey h') h adds"

subsection \<open>Declaring associations\<close>

text \<open>
  The builder function passed to \<open>associate\<close> is given by the calls it makes on the
  association builder, in order. \<open>keyOptions\<close> collects the optional fields of the
  four option objects; \<open>hasMany\<close> takes its name as an argument and ignores \<open>ko_as\<close>,
  \<open>belongsToMany\<close> takes its foreign keys from the \<open>through\<close> options.
\<close>

record keyOptions =
  ko_as :: "string option"
  ko_foreignKey :: "string option"
  ko_sourceKey :: "string option"
  ko_targetKey :: "string option"

record throughOptions =
  to_foreignKey :: "string option"
  to_otherKey :: "string option"
  to_as :: "string option"

datatype builderCall =
    belongsTo string keyOptions
  | hasOne string keyOptions
  | hasMany string string keyOptions
  | belongsToMany string string keyOptions "throughOptions option"

text \<open>\<open>getModel(name)\<close> without \<open>noThrow\<close>: the model or \<open>ModelNotRegisteredError\<close>.\<close>

definition getModelOrThrow :: "HydraModeler \<Rightarrow> string \<Rightarrow> heap \<Rightarrow> (error + imodel) \<times> heap" where
  "getModelOrThrow this name h =
     (case getModel this name False h of
        (Inl e, h1) \<Rightarrow> (Inl e, h1)
      | (Inr None, h1) \<Rightarrow> (Inl ModelNotRegisteredError, h1)
      | (Inr (Some m), h1) \<Rightarrow> (Inr m, h1))"

text \<open>The source and target lookups every builder method performs, in this order.\<close>

definition getSourceAndTarget ::
  "HydraModeler \<Rightarrow> string \<Rightarrow> string \<Rightarrow> heap \<Rightarrow> (error + imodel \<times> imodel) \<times> heap" where
  "getSourceAndTarget this sourceModelName targetModelName h =
     (case getModelOrThrow this sourceModelName h of
        (Inl e, h1) \<Rightarrow> (Inl e, h1)
      | (Inr source, h1) \<Rightarrow>
          (case getModelOrThrow this targetModelName h1 of
             (Inl e, h2) \<Rightarrow> (Inl e, h2)
           | (Inr target, h2) \<Rightarrow> (Inr (source, target), h2)))"

fun buildAssociation ::
  "HydraModeler \<Rightarrow> string \<Rightarrow> builderCall \<Rightarrow> heap \<Rightarrow> (error + association) \<times> heap" where
  "buildAssociation this sourceModelName (belongsTo targetModelName opts) h =
     (case getSourceAndTarget this sourceModelName targetModelName h of
        (Inl e, h1) \<Rightarrow> (Inl e, h1)
      | (Inr (source, target), h1) \<Rightarrow>
          (Inr \<lparr> a_as = orElse (ko_as opts) targetModelName,
                 a_associationType = BelongsTo,
                 a_foreignKey = Some (orElse (ko_foreignKey opts)
                                  (targetModelName @ defaultForeignKeySuffix (mo_options this))),
                 a_source = source,
                 a_sourceKey = orElse (ko_sourceKey opts) (defaultPrimaryKey (mo_options this)),
                 a_target = target,
                 a_targetKey = orElse (ko_targetKey opts) (defaultPrimaryKey (mo_options this)),
                 a_through = None \<rparr>, h1))"
| "buildAssociation this sourceModelName (hasOne targetModelName opts) h =
     (case getSourceAndTarget this sourceModelName targetModelName h of
        (Inl e, h1) \<Rightarrow> (Inl e, h1)
      | (Inr (source, target), h1) \<Rightarrow>
          (Inr \<lparr> a_as = orElse (ko_as opts) targetModelName,
                 a_associationType = HasOne,
                 a_foreignKey = Some (orElse (ko_foreignKey opts)
                                  (sourceModelName @ defaultForeignKeySuffix (mo_options this))),
                 a_source = source,
                 a_sourceKey = orElse (ko_sourceKey opts) (defaultPrimaryKey (mo_options this)),
                 a_target = target,
                 a_targetKey = orElse (ko_targetKey opts) (defaultPrimaryKey (mo_options this)),
                 a_through = None \<rparr>, h1))"
| "buildAssociation this sourceModelName (hasMany targetModelName alias opts) h =
     (if alias = [] then (Inl HasManyMissingAliasError, h)
      else case getSourceAndTarget this sourceModelName targetModelName h of
        (Inl e, h1) \<Rightarrow> (Inl e, h1)
      | (Inr (source, target), h1) \<Rightarrow>
          (Inr \<lparr> a_as = alias,
                 a_associationType = HasMany,
                 a_foreignKey = Some (orElse (ko_foreignKey opts)
                                  (sourceModelName @ defaultForeignKeySuffix (mo_options this))),
                 a_source = source,
                 a_sourceKey = orElse (ko_sourceKey opts) (defaultPrimaryKey (mo_options this)),
                 a_target = target,
                 a_targetKey = orElse (ko_targetKey opts) (defaultPrimaryKey (mo_options this)),
                 a_through = None \<rparr>, h1))"
| "buildAssociation this sourceModelName (belongsToMany targetModelName throughModelName opts thr) h =
     (let foreignKey = orElse (case thr of None \<Rightarrow> None | Some t \<Rightarrow> to_foreignKey t)
                         (sourceModelName @ defaultForeignKeySuffix (mo_options this));
          otherKey = orElse (case thr of None \<Rightarrow> None | Some t \<Rightarrow> to_otherKey t)
                       (targetModelName @ defaultForeignKeySuffix (mo_options this))
      in case getSourceAndTarget this sourceModelName targetModelName h of
        (Inl e, h1) \<Rightarrow> (Inl e, h1)
      | (Inr (source, target), h1) \<Rightarrow>
          (case getModel this throughModelName True h1 of
             (Inl e, h2) \<Rightarrow> (Inl e, h2)
           | (Inr None, h2) \<Rightarrow> (Inl ThroughModelNotRegisteredError, h2)
           | (Inr (Some throughModel), h2) \<Rightarrow>
               (Inr \<lparr> a_as = orElse (ko_as opts) targetModelName,
                      a_associationType = BelongsToMany,
                      a_foreignKey = Some foreignKey,
                      a_source = source,
                      a_sourceKey = orElse (ko_sourceKey opts) (defaultPrimaryKey (mo_options this)),
                      a_target = target,
                      a_targetKey = orElse (ko_targetKey opts) (defaultPrimaryKey (mo_options this)),
                      a_through = Some \<lparr> t_model = throughModel,
                                         t_alias = (case thr of None \<Rightarrow> None
                                                    | Some t \<Rightarrow> (case to_as t of None \<Rightarrow> None
                                                        | Some s \<Rightarrow> if s = [] then None else Some s)),
                                         t_foreignKey = foreignKey,
                                         t_otherKey = otherKey \<rparr> \<rparr>, h2)))"

text \<open>
  Running the builder function: the associations are collected first; an exception in
  any builder method leaves \<open>associate\<close> before anything is registered.
\<close>

fun runBuilder ::
  "HydraModeler \<Rightarrow> string \<Rightarrow> builderCall list \<Rightarrow> association list \<Rightarrow> heap
   \<Rightarrow> (error + association list) \<times> heap" where
  "runBuilder this sourceModelName [] associations h = (Inr associations, h)"
| "runBuilder this sourceModelName (c # cs) associations h =
     (case buildAssociation this sourceModelName c h of
        (Inl e, h1) \<Rightarrow> (Inl e, h1)
      | (Inr a, h1) \<Rightarrow> runBuilder this sourceModelName cs (associations @ [a]) h1)"

text \<open>The body of the registration loop that ends \<open>associate\<close>.\<close>

definition registerAssociation :: "HydraModeler \<Rightarrow> string \<Rightarrow> heap \<Rightarrow> association \<Rightarrow> heap" where
  "registerAssociation this sourceModelName h a =
     (let (r, h1) = ensureAssocMap this sourceModelName h
      in if mapHas (innerMaps h1 r) (a_as a) then h1
         else h1\<lparr> innerMaps := (innerMaps h1)(r := mapSet (innerMaps h1 r) (a_as a) a) \<rparr>)"

definition associate ::
  "HydraModeler \<Rightarrow> string \<Rightarrow> builderCall list \<Rightarrow> heap \<Rightarrow> (error + unit) \<times> heap" where
  "associate this sourceModelName calls h =
     (case runBuilder this sourceModelName calls [] h of
        (Inl e, h1) \<Rightarrow> (Inl e, h1)
      | (Inr associations, h1) \<Rightarrow>
          (Inr (), foldl (registerAssociation this sourceModelName) h1 associations))"

subsection \<open>The copy constructor\<close>

text \<open>The first loop of \<open>cloneFromModeler\<close>: one new model and one new empty inner map.\<close>

definition cloneModel :: "HydraModeler \<Rightarrow> heap \<Rightarrow> string \<times> HydraModel \<Rightarrow> heap" where
  "cloneModel this h entry =
     (let cloned = newHydraModel (hm_name (snd entry)) (hm_attributes (snd entry))
                     (Some (hm_primaryKey (snd entry)));
          h1 = h\<lparr> modelMaps := (modelMaps h)
                    (mo_models this := mapSet (modelMaps h (mo_models this)) (fst entry) cloned) \<rparr>;
          (r, h2) = newInnerMap h1
      in h2\<lparr> outerMaps := (outerMaps h2)
                (mo_associations this := mapSet (outerMaps h2 (mo_associations this)) (fst entry) r) \<rparr>)"

text \<open>The local helper \<open>wrap\<close>: reads the maps of the registry under construction.\<close>

definition wrap :: "HydraModeler \<Rightarrow> string \<Rightarrow> heap \<Rightarrow> error + imodel" where
  "wrap this modelName h =
     (case map_of (modelMaps h (mo_models this)) modelName of
        None \<Rightarrow> Inl InternalCloneModelMissingError
      | Some m \<Rightarrow>
          (case map_of (outerMaps h (mo_associations this)) modelName of
             None \<Rightarrow> Inl InternalCloneModelMissingError
           | Some assocMap \<Rightarrow>
               Inr \<lparr> m_name = hm_name m, m_attributes = hm_attributes m,
                     m_primaryKey = hm_primaryKey m, m_associations = assocMap \<rparr>))"

definition cloneAssociation :: "HydraModeler \<Rightarrow> string \<Rightarrow> association \<Rightarrow> heap \<Rightarrow> error + association" where
  "cloneAssociation this srcName assoc h =
     (case wrap this srcName h of
        Inl e \<Rightarrow> Inl e
      | Inr source \<Rightarrow>
          (case wrap this (m_name (a_target assoc)) h of
             Inl e \<Rightarrow> Inl e
           | Inr target \<Rightarrow>
               (case a_through assoc of
                  None \<Rightarrow>
                    Inr \<lparr> a_as = a_as assoc, a_associationType = a_associationType assoc,
                          a_foreignKey = a_foreignKey assoc, a_source = source,
                          a_sourceKey = a_sourceKey assoc, a_target = target,
                          a_targetKey = a_targetKey assoc, a_through = None \<rparr>
                | Some t \<Rightarrow>
                    (case wrap this (m_name (t_model t)) h of
                       Inl e \<Rightarrow> Inl e
                     | Inr throughModel \<Rightarrow>
                         Inr \<lparr> a_as = a_as assoc, a_associationType = a_associationType assoc,
                               a_foreignKey = a_foreignKey assoc, a_source = source,
                               a_sourceKey = a_sourceKey assoc, a_target = target,
                               a_targetKey = a_targetKey assoc,
                               a_through = Some \<lparr> t_model = throughModel, t_alias = t_alias t,
                                                  t_foreignKey = t_foreignKey t,
                                                  t_otherKey = t_otherKey t \<rparr> \<rparr>))))"

text \<open>The inner loop: the entries of one association map, copied into \<open>clonedMap\<close>.\<close>

fun cloneEntries ::
  "HydraModeler \<Rightarrow> string \<Rightarrow> (string \<times> association) list \<Rightarrow> nat \<Rightarrow> heap \<Rightarrow> (error + unit) \<times> heap" where
  "cloneEntries this srcName [] clonedMap h = (Inr (), h)"
| "cloneEntries this srcName ((as, assoc) # rest) clonedMap h =
     (case cloneAssociation this srcName assoc h of
        Inl e \<Rightarrow> (Inl e, h)
      | Inr entry \<Rightarrow>
          cloneEntries this srcName rest clonedMap
            (h\<lparr> innerMaps := (innerMaps h)(clonedMap := mapSet (innerMaps h clonedMap) as entry) \<rparr>))"

text \<open>The outer loop over the association maps of the source registry.\<close>

fun cloneAssocMaps :: "HydraModeler \<Rightarrow> (string \<times> nat) list \<Rightarrow> heap \<Rightarrow> (error + unit) \<times> heap" where
  "cloneAssocMaps this [] h = (Inr (), h)"
| "cloneAssocMaps this ((srcName, assocMap) # rest) h =
     (let (clonedMap, h1) = newInnerMap h
      in case cloneEntries this srcName (innerMaps h1 assocMap) clonedMap h1 of
           (Inl e, h2) \<Rightarrow> (Inl e, h2)
         | (Inr u, h2) \<Rightarrow>
             cloneAssocMaps this rest
               (h2\<lparr> outerMaps := (outerMaps h2)
                      (mo_associations this :=
                         mapSet (outerMaps h2 (mo_associations this)) srcName clonedMap) \<rparr>))"

text \<open>
  \<open>cloneFromModeler(source)\<close>, together with the assignment of the two new maps to the
  fields of the registry under construction.
\<close>

definition cloneFromModeler :: "options \<Rightarrow> HydraModeler \<Rightarrow> heap \<Rightarrow> (error + HydraModeler) \<times> heap" where
  "cloneFromModeler opts source h =
     (let (ms, h1) = newModelMap h;
          (as, h2) = newOuterMap h1;
          this = \<lparr> mo_models = ms, mo_associations = as, mo_options = opts \<rparr>;
          h3 = foldl (cloneModel this) h2 (modelMaps h2 (mo_models source))
      in case cloneAssocMaps this (outerMaps h3 (mo_associations source)) h3 of
           (Inl e, h4) \<Rightarrow> (Inl e, h4)
         | (Inr u, h4) \<Rightarrow> (Inr this, h4))"

text \<open>
  \<open>new HydraModeler(from)\<close>: the field initialisers create two maps that the clone
  replaces at once.
\<close>

definition newHydraModelerFrom :: "HydraModeler \<Rightarrow> heap \<Rightarrow> (error + HydraModeler) \<times> heap" where
  "newHydraModelerFrom from h =
     (let (ms0, h1) = newModelMap h;
          (as0, h2) = newOuterMap h1
      in cloneFromModeler (mo_options from) from h2)"

section \<open>Row grouping\<close>

text \<open>One iteration of the grouping loop of \<open>groupRowsByPK\<close>.\<close>

definition groupStep :: "string \<Rightarrow> (scalar \<times> row list) list \<Rightarrow> row \<Rightarrow> (scalar \<times> row list) list" where
  "groupStep primaryKeyName m r =
     (let pkValue = rowGet r primaryKeyName
      in if \<not> truthy pkValue then m
         else mapSet m pkValue ((case map_of m pkValue of None \<Rightarrow> [] | Some g \<Rightarrow> g) @ [r]))"

definition groupRowsByPK :: "row list \<Rightarrow> imodel \<Rightarrow> string \<Rightarrow> error + (scalar \<times> row list) list" where
  "groupRowsByPK rows model alias =
     (if alias = [] then Inl ModelIsMissingAliasError
      else case rows of
             [] \<Rightarrow> Inr []
           | first # _ \<Rightarrow>
               (let primaryKeyName = alias @ ''.'' @ m_primaryKey model
                in if \<not> mapHas first primaryKeyName
                   then Inl PrefixedPrimaryKeyNotFoundInFlatRowsError
                   else Inr (foldl (groupStep primaryKeyName) [] rows)))"

section \<open>Hydration\<close>

text \<open>
  A schema node. An absent \<open>children\<close> list is the empty list. \<open>postProcess\<close> is a
  pure function of the object built so far and of the parents record.
\<close>

datatype node =
  Node (n_model: string) (n_alias: "string option")
       (n_postProcess: "(obj \<Rightarrow> parents \<Rightarrow> obj) option") (n_children: "node list")

text \<open>\<open>Hydrator.alias\<close>: \<open>schema.alias || schema.model\<close>\<close>

definition nodeAlias :: "node \<Rightarrow> string" where
  "nodeAlias schema = orDefault (n_alias schema) (n_model schema)"

subsection \<open>The alias check\<close>

text \<open>\<open>key.split('.')[0]\<close>\<close>

definition columnPrefix :: "string \<Rightarrow> string" where
  "columnPrefix key = takeWhile (\<lambda>c. c \<noteq> CHR ''.'') key"

fun checkNode :: "string list \<Rightarrow> node \<Rightarrow> error + unit"
  and checkNodes :: "string list \<Rightarrow> node list \<Rightarrow> error + unit" where
  "checkNode colPrefixes (Node m a p cs) =
     (if nodeAlias (Node m a p cs) \<notin> set colPrefixes then Inl SchemaAliasMissingError
      else checkNodes colPrefixes cs)"
| "checkNodes colPrefixes [] = Inr ()"
| "checkNodes colPrefixes (c # cs) =
     (case checkNode colPrefixes c of
        Inl e \<Rightarrow> Inl e
      | Inr u \<Rightarrow> checkNodes colPrefixes cs)"

definition checkAllSchemaAliasesPresent :: "node \<Rightarrow> row list \<Rightarrow> error + unit" where
  "checkAllSchemaAliasesPresent schema flatRows =
     (case flatRows of
        [] \<Rightarrow> Inr ()
      | r # _ \<Rightarrow> checkNode (map (columnPrefix \<circ> fst) r) schema)"

subsection \<open>The recursive tree builder\<close>

text \<open>\<open>s || d\<close> on a string.\<close>

definition strOr :: "string \<Rightarrow> string \<Rightarrow> string" where
  "strOr s d = (if s = [] then d else s)"

text \<open>The sparse projection of the model attributes out of the representative row.\<close>

definition copyAttributes :: "imodel \<Rightarrow> string \<Rightarrow> row \<Rightarrow> obj" where
  "copyAttributes model alias r =
     foldl (\<lambda>result attr.
              (let key = alias @ ''.'' @ attr
               in if mapHas r key then mapSet result attr (Prim (rowGet r key)) else result))
           [] (objectKeys (m_attributes model))"

text \<open>\<open>rows.some((r) => Object.keys(r).some((k) => k.startsWith(`${childAlias}.`)))\<close>\<close>

definition hasKeys :: "row list \<Rightarrow> string \<Rightarrow> bool" where
  "hasKeys rows childAlias =
     list_ex (\<lambda>r. list_ex (\<lambda>k. startsWith k (childAlias @ ''.'')) (map fst r)) rows"

text \<open>The names computed in the \<open>BelongsToMany\<close> branch.\<close>

definition parentSourceKey :: "association \<Rightarrow> string" where
  "parentSourceKey assoc = strOr (a_sourceKey assoc) (m_primaryKey (a_source assoc))"

definition childTargetKey :: "association \<Rightarrow> string" where
  "childTargetKey assoc = strOr (a_targetKey assoc) (m_primaryKey (a_target assoc))"

definition joinAlias :: "through \<Rightarrow> string" where
  "joinAlias t = orElse (t_alias t) (m_name (t_model t))"

definition joinToParentFK :: "HydraModeler \<Rightarrow> association \<Rightarrow> through \<Rightarrow> string" where
  "joinToParentFK hydraBuilder assoc t =
     strOr (t_foreignKey t) (m_name (a_source assoc) @ defaultForeignKeySuffix (mo_options hydraBuilder))"

definition joinToChildFK :: "HydraModeler \<Rightarrow> association \<Rightarrow> through \<Rightarrow> string" where
  "joinToChildFK hydraBuilder assoc t =
     strOr (t_otherKey t) (m_name (a_target assoc) @ defaultForeignKeySuffix (mo_options hydraBuilder))"

text \<open>The predicate of the \<open>rows.filter\<close> call that computes \<open>relevantRows\<close>.\<close>

definition isRelevantRow ::
  "HydraModeler \<Rightarrow> association \<Rightarrow> through \<Rightarrow> string \<Rightarrow> scalar \<Rightarrow> row \<Rightarrow> bool" where
  "isRelevantRow hydraBuilder assoc t childAlias parentPkValue r =
     (let parentMatch =
            (rowGet r (joinAlias t @ ''.'' @ joinToParentFK hydraBuilder assoc t) = parentPkValue)
      in if \<not> parentMatch then False
         else
           (let childPk = rowGet r (childAlias @ ''.'' @ childTargetKey assoc)
            in if nullish childPk then False
               else
                 (let joinOther = rowGet r (joinAlias t @ ''.'' @ joinToChildFK hydraBuilder assoc t)
                  in nullish joinOther \<or> joinOther = childPk)))"

definition relevantRows ::
  "HydraModeler \<Rightarrow> association \<Rightarrow> through \<Rightarrow> string \<Rightarrow> string \<Rightarrow> row \<Rightarrow> row list \<Rightarrow> row list" where
  "relevantRows hydraBuilder assoc t alias childAlias r rows =
     filter (isRelevantRow hydraBuilder assoc t childAlias
               (rowGet r (alias @ ''.'' @ parentSourceKey assoc))) rows"

text \<open>One iteration of the loop that fills \<open>grouped\<close> in the \<open>BelongsToMany\<close> branch.\<close>

definition bucketStep :: "string \<Rightarrow> (scalar \<times> row list) list \<Rightarrow> row \<Rightarrow> (scalar \<times> row list) list" where
  "bucketStep column grouped r =
     (let childPkVal = rowGet r column
      in case map_of grouped childPkVal of
           Some bucket \<Rightarrow> mapSet grouped childPkVal (bucket @ [r])
         | None \<Rightarrow> mapSet grouped childPkVal [r])"

definition belongsToManyGrouped ::
  "HydraModeler \<Rightarrow> association \<Rightarrow> through \<Rightarrow> string \<Rightarrow> string \<Rightarrow> row \<Rightarrow> row list
   \<Rightarrow> (scalar \<times> row list) list" where
  "belongsToManyGrouped hydraBuilder assoc t alias childAlias r rows =
     foldl (bucketStep (childAlias @ ''.'' @ childTargetKey assoc)) []
       (relevantRows hydraBuilder assoc t alias childAlias r rows)"

text \<open>
  What the body of the loop over the child nodes decides for one child, before any
  recursive call: skip the child, raise, hydrate every group into an array
  (\<open>HasMany\<close>, \<open>BelongsToMany\<close>), or hydrate the first group into a single object
  (\<open>BelongsTo\<close>, \<open>HasOne\<close>). The string is \<open>outputKey\<close>.
\<close>

datatype childPlan =
    Skip
  | Throw error
  | HydrateAll string "row list list"
  | HydrateFirst string "row list"

definition outputKey :: "node \<Rightarrow> association \<Rightarrow> string" where
  "outputKey child assoc = (case n_alias child of None \<Rightarrow> a_as assoc | Some x \<Rightarrow> nodeAlias child)"

definition planChild ::
  "HydraModeler \<Rightarrow> imodel \<Rightarrow> string \<Rightarrow> row \<Rightarrow> row list \<Rightarrow> node \<Rightarrow> heap \<Rightarrow> childPlan \<times> heap" where
  "planChild hydraBuilder model alias r rows child h =
     (if \<not> hasKeys rows (nodeAlias child) then (Skip, h)
      else
        (case getAssociation hydraBuilder (m_name model) (nodeAlias child) h of
           (None, h1) \<Rightarrow> (Throw AssociationNotDeclaredError, h1)
         | (Some assoc, h1) \<Rightarrow>
             if a_associationType assoc = BelongsToMany then
               (case a_through assoc of
                  None \<Rightarrow> (Throw BelongsToManyThroughModelMissingError, h1)
                | Some t \<Rightarrow>
                    (HydrateAll (outputKey child assoc)
                       (map snd (belongsToManyGrouped hydraBuilder assoc t alias
                                   (nodeAlias child) r rows)), h1))
             else
               (case groupRowsByPK rows (a_target assoc) (nodeAlias child) of
                  Inl e \<Rightarrow> (Throw e, h1)
                | Inr grouped \<Rightarrow>
                    if a_associationType assoc = HasMany
                    then (HydrateAll (outputKey child assoc) (map snd grouped), h1)
                    else
                      (case map snd grouped of
                         [] \<Rightarrow> (Skip, h1)
                       | firstGroup # _ \<Rightarrow> (HydrateFirst (outputKey child assoc) firstGroup, h1)))))"

text \<open>
  \<open>hydrateModelRecursive\<close>. \<open>hydrateChildren\<close> is its loop over the child nodes, carrying
  the object under construction; \<open>hydrateGroups\<close> is a \<open>map\<close> of the recursive call over
  a sequence of groups, which stops at the first exception. The parents record passed
  down holds the object as built so far. No entry of it is ever \<open>undefined\<close>, so the
  strict copy \<open>parentsStrict\<close> has the same entries.
\<close>

function (sequential) hydrateModelRecursive ::
      "HydraModeler \<Rightarrow> node \<Rightarrow> row list \<Rightarrow> parents \<Rightarrow> heap \<Rightarrow> (error + obj) \<times> heap"
  and hydrateChildren ::
      "HydraModeler \<Rightarrow> imodel \<Rightarrow> string \<Rightarrow> row \<Rightarrow> row list \<Rightarrow> parents \<Rightarrow> node list \<Rightarrow> obj \<Rightarrow> heap
       \<Rightarrow> (error + obj) \<times> heap"
  and hydrateGroups ::
      "HydraModeler \<Rightarrow> node \<Rightarrow> row list list \<Rightarrow> parents \<Rightarrow> heap \<Rightarrow> (error + obj list) \<times> heap"
where
  "hydrateModelRecursive hydraBuilder (Node m a p cs) rows parentsIn h =
     (case getModel hydraBuilder m True h of
        (Inl e, h1) \<Rightarrow> (Inl e, h1)
      | (Inr None, h1) \<Rightarrow> (Inl NodeModelNotFoundError, h1)
      | (Inr (Some model), h1) \<Rightarrow>
          (case rows of
             [] \<Rightarrow> (Inr [], h1)
           | r # _ \<Rightarrow>
               (case hydrateChildren hydraBuilder model (nodeAlias (Node m a p cs)) r rows parentsIn cs
                       (copyAttributes model (nodeAlias (Node m a p cs)) r) h1 of
                  (Inl e, h2) \<Rightarrow> (Inl e, h2)
                | (Inr result, h2) \<Rightarrow>
                    (case p of
                       None \<Rightarrow> (Inr result, h2)
                     | Some postProcess \<Rightarrow>
                         (Inr (postProcess result
                                 (mapSet parentsIn (nodeAlias (Node m a p cs)) result)), h2)))))"
| "hydrateChildren hydraBuilder model alias r rows parentsIn [] result h = (Inr result, h)"
| "hydrateChildren hydraBuilder model alias r rows parentsIn (child # cs) result h =
     (case planChild hydraBuilder model alias r rows child h of
        (Skip, h1) \<Rightarrow> hydrateChildren hydraBuilder model alias r rows parentsIn cs result h1
      | (Throw e, h1) \<Rightarrow> (Inl e, h1)
      | (HydrateAll key groups, h1) \<Rightarrow>
          (case hydrateGroups hydraBuilder child groups (mapSet parentsIn alias result) h1 of
             (Inl e, h2) \<Rightarrow> (Inl e, h2)
           | (Inr objs, h2) \<Rightarrow>
               hydrateChildren hydraBuilder model alias r rows parentsIn cs
                 (mapSet result key (Arr (map Obj objs))) h2)
      | (HydrateFirst key firstGroup, h1) \<Rightarrow>
          (case hydrateModelRecursive hydraBuilder child firstGroup (mapSet parentsIn alias result) h1 of
             (Inl e, h2) \<Rightarrow> (Inl e, h2)
           | (Inr hydrated, h2) \<Rightarrow>
               hydrateChildren hydraBuilder model alias r rows parentsIn cs
                 (mapSet result key (Obj hydrated)) h2))"
| "hydrateGroups hydraBuilder schema [] parentsIn h = (Inr [], h)"
| "hydrateGroups hydraBuilder schema (grp # groups) parentsIn h =
     (case hydrateModelRecursive hydraBuilder schema grp parentsIn h of
        (Inl e, h1) \<Rightarrow> (Inl e, h1)
      | (Inr hydrated, h1) \<Rightarrow>
          (case hydrateGroups hydraBuilder schema groups parentsIn h1 of
             (Inl e, h2) \<Rightarrow> (Inl e, h2)
           | (Inr results, h2) \<Rightarrow> (Inr (hydrated # results), h2)))"

  by pat_completeness auto

termination
  by (relation "inv_image (less_than <*lex*> less_than)
        (\<lambda>x. case x of
               Inl (hb, n, rows, ps, h) \<Rightarrow> (2 * size n, 0)
             | Inr (Inl (hb, model, al, r, rows, ps, cs, res, h)) \<Rightarrow> (2 * size_list size cs, 0)
             | Inr (Inr (hb, n, gs, ps, h)) \<Rightarrow> (2 * size n + 1, length gs))") auto

subsection \<open>The orchestrator\<close>

text \<open>\<open>Hydrator.hydrate\<close>\<close>

definition Hydrator_hydrate ::
  "row list \<Rightarrow> HydraModeler \<Rightarrow> node \<Rightarrow> heap \<Rightarrow> (error + obj list) \<times> heap" where
  "Hydrator_hydrate flatRows hydraBuilder schema h =
     (case checkAllSchemaAliasesPresent schema flatRows of
        Inl e \<Rightarrow> (Inl e, h)
      | Inr u \<Rightarrow>
          (case getModel hydraBuilder (n_model schema) True h of
             (Inl e, h1) \<Rightarrow> (Inl e, h1)
           | (Inr None, h1) \<Rightarrow> (Inl SchemaModelNotFoundError, h1)
           | (Inr (Some rootModel), h1) \<Rightarrow>
               (case groupRowsByPK flatRows rootModel (nodeAlias schema) of
                  Inl e \<Rightarrow> (Inl e, h1)
                | Inr groups \<Rightarrow> hydrateGroups hydraBuilder schema (map snd groups) [] h1)))"

text \<open>\<open>array.join(sep)\<close> on strings.\<close>

fun join :: "string \<Rightarrow> string list \<Rightarrow> string" where
  "join sep [] = []"
| "join sep [x] = x"
| "join sep (x # y # ys) = x @ sep @ join sep (y # ys)"

text \<open>
  \<open>allObjectsHaveSameProperties\<close>. The default \<open>sort\<close> orders strings by their code
  units, which is the lexicographic order on character lists.
\<close>

definition allObjectsHaveSameProperties :: "row list \<Rightarrow> bool" where
  "allObjectsHaveSameProperties rows =
     (case rows of
        [] \<Rightarrow> True
      | first # rest \<Rightarrow>
          if rest = [] then True
          else (let referenceKeys = join ''|'' (sort (map fst first))
                in list_all (\<lambda>r. join ''|'' (sort (map fst r)) = referenceKeys) rows))"

text \<open>\<open>HydraModeler.hydrate\<close>\<close>

definition hydrate :: "HydraModeler \<Rightarrow> row list \<Rightarrow> node \<Rightarrow> heap \<Rightarrow> (error + obj list) \<times> heap" where
  "hydrate this flatRows schema h =
     (if \<not> allObjectsHaveSameProperties flatRows then (Inl AllFlatRowsMustHaveSamePropertiesError, h)
      else Hydrator_hydrate flatRows this schema h)"

section \<open>Notions used to state the properties\<close>

text \<open>
  The distinct elements of a list in the order of their first appearance.
\<close>

definition firstAppearances :: "'a list \<Rightarrow> 'a list" where
  "firstAppearances xs = rev (remdups (rev xs))"

text \<open>
  The common shape of the two grouping loops of the source (\<open>groupStep\<close> and
  \<open>bucketStep\<close>): a row whose key \<open>f r\<close> passes \<open>P\<close> is appended to the group of its key.
\<close>

definition groupingStep ::
  "('v \<Rightarrow> bool) \<Rightarrow> ('r \<Rightarrow> 'v) \<Rightarrow> ('v \<times> 'r list) list \<Rightarrow> 'r \<Rightarrow> ('v \<times> 'r list) list" where
  "groupingStep P f m r =
     (if \<not> P (f r) then m
      else mapSet m (f r) ((case map_of m (f r) of None \<Rightarrow> [] | Some g \<Rightarrow> g) @ [r]))"

text \<open>
  The grouping as a specification: one group per distinct key that passes \<open>P\<close>, in the
  order of first appearance, each group holding the rows of its key in input order.
\<close>

definition groupsOf :: "('v \<Rightarrow> bool) \<Rightarrow> ('r \<Rightarrow> 'v) \<Rightarrow> 'r list \<Rightarrow> ('v \<times> 'r list) list" where
  "groupsOf P f rows =
     map (\<lambda>k. (k, filter (\<lambda>r. f r = k) rows)) (firstAppearances (filter P (map f rows)))"

text \<open>
  \<open>h'\<close> extends \<open>h\<close>: maps were created and entries were added to outer maps, and
  nothing that \<open>h\<close> holds was changed.
\<close>

definition heapExtends :: "heap \<Rightarrow> heap \<Rightarrow> bool" where
  "heapExtends h h' =
     (nextRef h \<le> nextRef h' \<and> modelMaps h' = modelMaps h
      \<and> (\<forall>r < nextRef h. innerMaps h' r = innerMaps h r)
      \<and> (\<forall>a k v. map_of (outerMaps h a) k = Some v \<longrightarrow> map_of (outerMaps h' a) k = Some v))"

text \<open>
  The shape of a registry built through the public interface: every registered model is
  stored under its own name and has an association map.
\<close>

definition registryOk :: "HydraModeler \<Rightarrow> heap \<Rightarrow> bool" where
  "registryOk this h =
     list_all (\<lambda>(name, m). hm_name m = name \<and> mapHas (outerMaps h (mo_associations this)) name)
       (modelMaps h (mo_models this))"

text \<open>The nodes of a schema tree, in pre-order.\<close>

fun nodesOf :: "node \<Rightarrow> node list" where
  "nodesOf (Node m a p cs) = Node m a p cs # concat (map nodesOf cs)"

text \<open>
  The references a registry holds into the store of inner maps, and the condition that
  everything it holds was allocated.
\<close>

definition innerRefs :: "heap \<Rightarrow> HydraModeler \<Rightarrow> nat list" where
  "innerRefs h x = map snd (outerMaps h (mo_associations x))"

definition validModeler :: "HydraModeler \<Rightarrow> heap \<Rightarrow> bool" where
  "validModeler x h =
     (mo_models x < nextRef h \<and> mo_associations x < nextRef h
      \<and> list_all (\<lambda>r. r < nextRef h) (innerRefs h x))"

text \<open>Two registries that share no map.\<close>

definition independent :: "heap \<Rightarrow> HydraModeler \<Rightarrow> HydraModeler \<Rightarrow> bool" where
  "independent h x y =
     (validModeler x h \<and> validModeler y h
      \<and> mo_models x \<noteq> mo_models y \<and> mo_associations x \<noteq> mo_associations y
      \<and> list_all (\<lambda>r. r \<notin> set (innerRefs h y)) (innerRefs h x))"

text \<open>
  The models and associations of a registry as values: what \<open>getModel\<close>,
  \<open>getAssociation\<close> and the \<open>models\<close> getter can observe.
\<close>

definition snapshot ::
  "heap \<Rightarrow> HydraModeler
   \<Rightarrow> (string \<times> HydraModel) list \<times> (string \<times> (string \<times> association) list) list \<times> options" where
  "snapshot h x =
     (modelMaps h (mo_models x),
      map (\<lambda>(n, r). (n, innerMaps h r)) (outerMaps h (mo_associations x)),
      mo_options x)"

text \<open>
  A step from \<open>h\<close> to \<open>h'\<close> that writes only maps of the registry \<open>x\<close> and maps it
  creates.
\<close>

definition touchesOnly :: "HydraModeler \<Rightarrow> heap \<Rightarrow> heap \<Rightarrow> bool" where
  "touchesOnly x h h' =
     (nextRef h \<le> nextRef h'
      \<and> (\<forall>a. a \<noteq> mo_models x \<longrightarrow> modelMaps h' a = modelMaps h a)
      \<and> (\<forall>a. a \<noteq> mo_associations x \<longrightarrow> outerMaps h' a = outerMaps h a)
      \<and> (\<forall>r. r < nextRef h \<and> r \<notin> set (innerRefs h x) \<longrightarrow> innerMaps h' r = innerMaps h r)
      \<and> (\<forall>r \<in> set (innerRefs h' x). r \<in> set (innerRefs h x) \<or> (nextRef h \<le> r \<and> r < nextRef h')))"

text \<open>The map references held inside an association: those of its model wrappers.\<close>

definition associationRefs :: "association \<Rightarrow> nat list" where
  "associationRefs a =
     m_associations (a_source a) # m_associations (a_target a)
       # (case a_through a of None \<Rightarrow> [] | Some t \<Rightarrow> [m_associations (t_model t)])"

text \<open>
  The state of the store while the copy constructor builds the registry \<open>c\<close>, started
  in \<open>h0\<close>: every map of \<open>c\<close>, and every map reference inside its associations, was
  allocated after \<open>h0\<close>, and no map that \<open>h0\<close> had allocated was written.
\<close>

definition cloneInv :: "HydraModeler \<Rightarrow> heap \<Rightarrow> heap \<Rightarrow> bool" where
  "cloneInv c h0 h =
     (nextRef h0 \<le> mo_models c \<and> mo_models c < nextRef h
      \<and> nextRef h0 \<le> mo_associations c \<and> mo_associations c < nextRef h
      \<and> (\<forall>r \<in> set (innerRefs h c). nextRef h0 \<le> r \<and> r < nextRef h)
      \<and> (\<forall>r \<in> set (innerRefs h c). \<forall>e \<in> set (innerMaps h r).
            \<forall>q \<in> set (associationRefs (snd e)). nextRef h0 \<le> q)
      \<and> (\<forall>a < nextRef h0. modelMaps h a = modelMaps h0 a \<and> outerMaps h a = outerMaps h0 a
                             \<and> innerMaps h a = innerMaps h0 a))"

text \<open>A key that is not empty and does not contain the separator of the row-shape check.\<close>

definition plainKey :: "string \<Rightarrow> bool" where
  "plainKey k = (k \<noteq> [] \<and> CHR ''|'' \<notin> set k)"

text \<open>
  A builder call that the registry can carry out: the models it names are registered,
  and a \<open>hasMany\<close> call gives a name.
\<close>

fun callDeclarable :: "HydraModeler \<Rightarrow> heap \<Rightarrow> builderCall \<Rightarrow> bool" where
  "callDeclarable this h (belongsTo targetModelName opts) =
     mapHas (modelMaps h (mo_models this)) targetModelName"
| "callDeclarable this h (hasOne targetModelName opts) =
     mapHas (modelMaps h (mo_models this)) targetModelName"
| "callDeclarable this h (hasMany targetModelName al opts) =
     (al \<noteq> [] \<and> mapHas (modelMaps h (mo_models this)) targetModelName)"
| "callDeclarable this h (belongsToMany targetModelName throughModelName opts thr) =
     (mapHas (modelMaps h (mo_models this)) targetModelName
      \<and> mapHas (modelMaps h (mo_models this)) throughModelName)"

section \<open>Example data\<close>

definition animalModel :: imodel where
  "animalModel = \<lparr> m_name = ''animal'',
                   m_attributes = PlainObject [(''id'', Plain), (''name'', Plain)],
                   m_primaryKey = ''id'', m_associations = 2 \<rparr>"

definition dog :: row where
  "dog = [(''Animal.id'', Num 1), (''Animal.name'', Str ''Dog'')]"

definition cat :: row where
  "cat = [(''Animal.name'', Str ''Cat'')]"

definition stray :: row where
  "stray = [(''Animal.id'', Null), (''Animal.name'', Str ''Stray'')]"

definition puppy :: row where
  "puppy = [(''Animal.id'', Num 1), (''Animal.name'', Str ''Puppy'')]"

definition emptyHeap :: heap where
  "emptyHeap = \<lparr> modelMaps = (\<lambda>r. []), outerMaps = (\<lambda>r. []), innerMaps = (\<lambda>r. []), nextRef = 0 \<rparr>"

definition noKeyOptions :: keyOptions where
  "noKeyOptions = \<lparr> ko_as = None, ko_foreignKey = None, ko_sourceKey = None, ko_targetKey = None \<rparr>"

text \<open>
  A registry built through the public interface: four models, and three associations
  declared on \<open>Customer\<close>.
\<close>

definition shopModeler :: HydraModeler where
  "shopModeler = fst (newHydraModeler None emptyHeap)"

definition shopModels :: "(string \<times> attributes \<times> string option) list" where
  "shopModels =
     [(''Customer'', PlainObject [(''code'', Plain), (''name'', Plain)], None),
      (''Address'', PlainObject [(''code'', Plain), (''street'', Plain)], None),
      (''Product'', PlainObject [(''code'', Plain), (''name'', Plain)], None),
      (''CustomerProduct'', PlainObject [(''CustomerCode'', Plain), (''ProductCode'', Plain)],
         Some ''CustomerCode'')]"

definition shopCalls :: "builderCall list" where
  "shopCalls =
     [belongsTo ''Address'' noKeyOptions,
      hasMany ''Product'' ''Products'' noKeyOptions,
      belongsToMany ''Product'' ''CustomerProduct'' (noKeyOptions \<lparr> ko_as := Some ''Bought'' \<rparr>) None]"

definition shopHeap :: heap where
  "shopHeap = snd (associate shopModeler ''Customer'' shopCalls
                (addModels shopModeler shopModels (snd (newHydraModeler None emptyHeap))))"

definition customerModel :: imodel where
  "customerModel = \<lparr> m_name = ''Customer'',
                     m_attributes = PlainObject [(''code'', Plain), (''name'', Plain)],
                     m_primaryKey = ''code'', m_associations = 2 \<rparr>"

definition addressModel :: imodel where
  "addressModel = \<lparr> m_name = ''Address'',
                    m_attributes = PlainObject [(''code'', Plain), (''street'', Plain)],
                    m_primaryKey = ''code'', m_associations = 3 \<rparr>"

definition productModel :: imodel where
  "productModel = \<lparr> m_name = ''Product'',
                    m_attributes = PlainObject [(''code'', Plain), (''name'', Plain)],
                    m_primaryKey = ''code'', m_associations = 4 \<rparr>"

definition customerProductModel :: imodel where
  "customerProductModel = \<lparr> m_name = ''CustomerProduct'',
       m_attributes = PlainObject [(''CustomerCode'', Plain), (''ProductCode'', Plain)],
       m_primaryKey = ''CustomerCode'', m_associations = 5 \<rparr>"

definition addressAssociation :: association where
  "addressAssociation = \<lparr> a_as = ''Address'', a_associationType = BelongsTo,
       a_foreignKey = Some ''AddressCode'', a_source = customerModel, a_sourceKey = ''code'',
       a_target = addressModel, a_targetKey = ''code'', a_through = None \<rparr>"

definition productsAssociation :: association where
  "productsAssociation = \<lparr> a_as = ''Products'', a_associationType = HasMany,
       a_foreignKey = Some ''CustomerCode'', a_source = customerModel, a_sourceKey = ''code'',
       a_target = productModel, a_targetKey = ''code'', a_through = None \<rparr>"

definition boughtThrough :: through where
  "boughtThrough = \<lparr> t_model = customerProductModel, t_alias = None,
       t_foreignKey = ''CustomerCode'', t_otherKey = ''ProductCode'' \<rparr>"

definition boughtAssociation :: association where
  "boughtAssociation = \<lparr> a_as = ''Bought'', a_associationType = BelongsToMany,
       a_foreignKey = Some ''CustomerCode'', a_source = customerModel, a_sourceKey = ''code'',
       a_target = productModel, a_targetKey = ''code'', a_through = Some boughtThrough \<rparr>"

text \<open>A registry configured with \<open>defaultPrimaryKey: 'id'\<close>.\<close>

definition idOptions :: HydraModelerOptions where
  "idOptions = \<lparr> o_defaultPrimaryKey = Some ''id'', o_defaultForeignKeySuffix = None \<rparr>"

definition animalAttributes :: attributes where
  "animalAttributes = PlainObject [(''id'', Plain), (''name'', Plain)]"

text \<open>Two rows with different key sets whose sorted keys join to the same string.\<close>

definition joinedRow :: row where
  "joinedRow = [(''A.x|A.y'', Num 1)]"

definition splitRow :: row where
  "splitRow = [(''A.x'', Num 1), (''A.y'', Num 2)]"

definition pointModeler :: HydraModeler where
  "pointModeler = fst (newHydraModeler None emptyHeap)"

definition pointHeap :: heap where
  "pointHeap = addModel pointModeler ''A'' (PlainObject [(''x'', Plain), (''y'', Plain)]) (Some ''x'')
                 (snd (newHydraModeler None emptyHeap))"

text \<open>A registry with the single model \<open>animal\<close>, whose primary key is \<open>id\<close>.\<close>

definition zooModeler :: HydraModeler where
  "zooModeler = fst (newHydraModeler None emptyHeap)"

definition zooHeap :: heap where
  "zooHeap = addModel zooModeler ''animal'' animalAttributes (Some ''id'')
               (snd (newHydraModeler None emptyHeap))"

definition zooSchema :: node where
  "zooSchema = Node ''animal'' (Some ''Animal'') None []"

definition zooAnimal :: HydraModel where
  "zooAnimal = \<lparr> hm_name = ''animal'', hm_attributes = animalAttributes, hm_primaryKey = ''id'' \<rparr>"

text \<open>A customer with no address and no product, as an outer join returns it.\<close>

definition loneCustomer :: row where
  "loneCustomer = [(''Customer.code'', Str ''C1''), (''Customer.name'', Str ''Alice''),
                   (''Address.code'', Null), (''Products.code'', Null)]"

definition productsNode :: node where
  "productsNode = Node ''Product'' (Some ''Products'') None []"

definition addressNode :: node where
  "addressNode = Node ''Address'' None None []"

text \<open>
  Join rows of one customer: product \<open>P1\<close> twice, product \<open>P2\<close> once, and an outer-join
  row without a product.
\<close>

definition boughtP1 :: row where
  "boughtP1 = [(''Customer.code'', Str ''C1''), (''CustomerProduct.CustomerCode'', Str ''C1''),
               (''CustomerProduct.ProductCode'', Str ''P1''), (''Bought.code'', Str ''P1'')]"

definition boughtP2 :: row where
  "boughtP2 = [(''Customer.code'', Str ''C1''), (''CustomerProduct.CustomerCode'', Str ''C1''),
               (''CustomerProduct.ProductCode'', Str ''P2''), (''Bought.code'', Str ''P2'')]"

definition boughtNothing :: row where
  "boughtNothing = [(''Customer.code'', Str ''C1''), (''CustomerProduct.CustomerCode'', Null),
                    (''CustomerProduct.ProductCode'', Null), (''Bought.code'', Null)]"

definition boughtNode :: node where
  "boughtNode = Node ''Product'' (Some ''Bought'') None []"

text \<open>The clone of the shop registry, and the store the copy constructor leaves.\<close>

definition shopClone :: HydraModeler where
  "shopClone = \<lparr> mo_models = 8, mo_associations = 9,
       mo_options = \<lparr> defaultPrimaryKey = ''code'', defaultForeignKeySuffix = ''Code'' \<rparr> \<rparr>"

definition shopCloneHeap :: heap where
  "shopCloneHeap = snd (newHydraModelerFrom shopModeler shopHeap)"

definition billingCall :: builderCall where
  "billingCall = hasOne ''Address'' (noKeyOptions \<lparr> ko_as := Some ''BillingAddress'' \<rparr>)"

section \<open>Properties of row grouping\<close>

lemma firstAppearances_snoc:
  "firstAppearances (xs @ [x]) =
     (if x \<in> set xs then firstAppearances xs else firstAppearances xs @ [x])"
  by (simp add: firstAppearances_def)

lemma set_firstAppearances [simp]: "set (firstAppearances xs) = set xs"
  by (simp add: firstAppearances_def)

lemma distinct_firstAppearances [simp]: "distinct (firstAppearances xs)"
  by (simp add: firstAppearances_def)

lemma map_of_tabulate:
  "map_of (map (\<lambda>k. (k, f k)) ks) k = (if k \<in> set ks then Some (f k) else None)"
  by (induction ks) auto

lemma mapSet_tabulate_new:
  "k \<notin> set ks \<Longrightarrow> mapSet (map (\<lambda>k. (k, f k)) ks) k v = map (\<lambda>k. (k, f k)) ks @ [(k, v)]"
  by (induction ks) auto

lemma mapSet_tabulate_old:
  "k \<in> set ks \<Longrightarrow> distinct ks \<Longrightarrow>
   mapSet (map (\<lambda>k. (k, f k)) ks) k v = map (\<lambda>k'. (k', if k' = k then v else f k')) ks"
  by (induction ks) auto

text \<open>The grouping loop computes the specified grouping.\<close>

lemma foldl_groupingStep: "foldl (groupingStep P f) [] rows = groupsOf P f rows"
proof (induction rows rule: rev_induct)
  case Nil
  show ?case by (simp add: groupsOf_def firstAppearances_def)
next
  case (snoc x xs)
  let ?ks = "firstAppearances (filter P (map f xs))"
  have ks: "set ?ks = {k \<in> f ` set xs. P k}" by auto
  show ?case
  proof (cases "P (f x)")
    case False
    have "map (\<lambda>k. (k, filter (\<lambda>r. f r = k) (xs @ [x]))) ?ks
          = map (\<lambda>k. (k, filter (\<lambda>r. f r = k) xs)) ?ks"
      using False ks by (intro map_cong) auto
    with False snoc show ?thesis by (simp add: groupsOf_def groupingStep_def)
  next
    case True
    show ?thesis
    proof (cases "f x \<in> set ?ks")
      case old: True
      have "map (\<lambda>k'. (k', if k' = f x then filter (\<lambda>r. f r = f x) xs @ [x]
                               else filter (\<lambda>r. f r = k') xs)) ?ks
            = map (\<lambda>k. (k, filter (\<lambda>r. f r = k) (xs @ [x]))) ?ks"
        by (intro map_cong) auto
      moreover have "f x \<in> set (filter P (map f xs))" using old by simp
      ultimately show ?thesis using True old snoc
        by (simp add: groupsOf_def groupingStep_def firstAppearances_snoc map_of_tabulate
              mapSet_tabulate_old)
    next
      case new: False
      then have nx: "f x \<notin> f ` set xs" using True ks by auto
      then have empty: "filter (\<lambda>r. f r = f x) xs = []"
        by (metis (mono_tags, lifting) filter_False imageI)
      have "map (\<lambda>k. (k, filter (\<lambda>r. f r = k) xs)) ?ks
            = map (\<lambda>k. (k, filter (\<lambda>r. f r = k) (xs @ [x]))) ?ks"
        using new by (intro map_cong) auto
      moreover have "f x \<notin> set (filter P (map f xs))" using new by simp
      ultimately show ?thesis using True new snoc empty
        by (simp add: groupsOf_def groupingStep_def firstAppearances_snoc map_of_tabulate
              mapSet_tabulate_new)
    qed
  qed
qed

lemma groupStep_eq: "groupStep key = groupingStep truthy (\<lambda>r. rowGet r key)"
  by (intro ext) (simp add: groupStep_def groupingStep_def Let_def)

lemma bucketStep_eq: "bucketStep key = groupingStep (\<lambda>v. True) (\<lambda>r. rowGet r key)"
  by (intro ext) (simp add: bucketStep_def groupingStep_def Let_def split: option.splits)

lemma groupRowsByPK_Inr:
  assumes "groupRowsByPK rows model alias = Inr groups"
  shows "groups = groupsOf truthy (\<lambda>r. rowGet r (alias @ ''.'' @ m_primaryKey model)) rows"
proof (cases rows)
  case Nil
  with assms show ?thesis
    by (simp add: groupRowsByPK_def groupsOf_def firstAppearances_def split: if_splits)
next
  case (Cons r rs)
  with assms show ?thesis
    by (simp add: groupRowsByPK_def Let_def groupStep_eq foldl_groupingStep [symmetric]
          split: if_splits)
qed

lemma groupsOf_keys:
  "map fst (groupsOf P f rows) = firstAppearances (filter P (map f rows))"
  by (simp add: groupsOf_def comp_def)

lemma groupsOf_member:
  "(k, g) \<in> set (groupsOf P f rows) \<longleftrightarrow>
     (k \<in> f ` set rows \<and> P k \<and> g = filter (\<lambda>r. f r = k) rows)"
  by (auto simp: groupsOf_def)

text \<open>
  C5. Grouping a non-empty row sequence under a non-empty alias raises
  PrefixedPrimaryKeyNotFound exactly when the identity column \<open>alias.primaryKey\<close> is
  absent from the first row. The other rows are not examined for the column: they do not
  occur in the right-hand side.
\<close>

theorem groupRowsByPK_error_iff_first_row:
  assumes "alias \<noteq> []" and "rows \<noteq> []"
  shows "(groupRowsByPK rows model alias = Inl PrefixedPrimaryKeyNotFoundInFlatRowsError)
         = (map_of (hd rows) (alias @ ''.'' @ m_primaryKey model) = None)"
  using assms by (cases rows) (simp_all add: groupRowsByPK_def mapHas_def Let_def)

theorem groupRowsByPK_error_iff_first_row_witness:
  "groupRowsByPK [dog, cat] animalModel ''Animal'' \<noteq> Inl PrefixedPrimaryKeyNotFoundInFlatRowsError
   \<and> groupRowsByPK [cat, dog] animalModel ''Animal'' = Inl PrefixedPrimaryKeyNotFoundInFlatRowsError"
  using groupRowsByPK_error_iff_first_row [of "''Animal''" "[dog, cat]" animalModel]
        groupRowsByPK_error_iff_first_row [of "''Animal''" "[cat, dog]" animalModel]
  by (simp add: dog_def cat_def animalModel_def)

text \<open>
  C6. When grouping succeeds, a row lies in some group exactly when its identity value
  is truthy, and every group is the subsequence of the input rows that carry its
  identity value, so it keeps their input order.
\<close>

theorem groupRowsByPK_truthy_rows_grouped:
  assumes "groupRowsByPK rows model alias = Inr groups"
  shows "(\<forall>r \<in> set rows. (\<exists>g \<in> snd ` set groups. r \<in> set g)
                           = truthy (rowGet r (alias @ ''.'' @ m_primaryKey model)))
         \<and> (\<forall>(k, g) \<in> set groups.
               g = filter (\<lambda>r. rowGet r (alias @ ''.'' @ m_primaryKey model) = k) rows)"
proof -
  let ?f = "\<lambda>r. rowGet r (alias @ ''.'' @ m_primaryKey model)"
  have g: "groups = groupsOf truthy ?f rows" by (rule groupRowsByPK_Inr [OF assms])
  have "(\<exists>g \<in> snd ` set groups. r \<in> set g) = truthy (?f r)" if "r \<in> set rows" for r
  proof
    assume "\<exists>g \<in> snd ` set groups. r \<in> set g"
    then obtain k g' where "(k, g') \<in> set groups" "r \<in> set g'" by auto
    then show "truthy (?f r)" unfolding g groupsOf_member by auto
  next
    assume "truthy (?f r)"
    with that have "(?f r, filter (\<lambda>r'. ?f r' = ?f r) rows) \<in> set groups"
      unfolding g groupsOf_member by auto
    moreover have "r \<in> set (filter (\<lambda>r'. ?f r' = ?f r) rows)" using that by simp
    ultimately show "\<exists>g \<in> snd ` set groups. r \<in> set g" by force
  qed
  moreover have "\<forall>(k, g) \<in> set groups. g = filter (\<lambda>r. ?f r = k) rows"
    by (auto simp: g groupsOf_member)
  ultimately show ?thesis by blast
qed

theorem groupRowsByPK_truthy_rows_grouped_witness:
  "groupRowsByPK [dog, stray, puppy] animalModel ''Animal'' = Inr [(Num 1, [dog, puppy])]
   \<and> \<not> (\<exists>g \<in> snd ` set [(Num 1, [dog, puppy])]. stray \<in> set g)"
proof -
  have h: "groupRowsByPK [dog, stray, puppy] animalModel ''Animal'' = Inr [(Num 1, [dog, puppy])]"
    by (simp add: groupRowsByPK_def groupStep_def rowGet_def mapHas_def Let_def
          dog_def stray_def puppy_def animalModel_def)
  have m: "stray \<in> set [dog, stray, puppy]" by simp
  have f: "\<not> truthy (rowGet stray (''Animal'' @ ''.'' @ m_primaryKey animalModel))"
    by (simp add: rowGet_def stray_def animalModel_def)
  from groupRowsByPK_truthy_rows_grouped [OF h]
  have "\<forall>r \<in> set [dog, stray, puppy].
          (\<exists>g \<in> snd ` set [(Num 1, [dog, puppy])]. r \<in> set g)
          = truthy (rowGet r (''Animal'' @ ''.'' @ m_primaryKey animalModel))"
    by (rule conjunct1)
  from bspec [OF this m] f
  have "\<not> (\<exists>g \<in> snd ` set [(Num 1, [dog, puppy])]. stray \<in> set g)" by blast
  with h show ?thesis by (rule conjI)
qed

section \<open>Evaluation of the example registries\<close>

lemma shopModeler_eval:
  "shopModeler = \<lparr> mo_models = 0, mo_associations = Suc 0,
       mo_options = \<lparr> defaultPrimaryKey = ''code'', defaultForeignKeySuffix = ''Code'' \<rparr> \<rparr>"
  by (simp add: shopModeler_def newHydraModeler_def newModelMap_def newOuterMap_def emptyHeap_def
        orDefault_def)

lemma shopHeap_eval:
  "modelMaps shopHeap 0 =
     [(''Customer'', \<lparr> hm_name = ''Customer'',
          hm_attributes = PlainObject [(''code'', Plain), (''name'', Plain)],
          hm_primaryKey = ''code'' \<rparr>),
      (''Address'', \<lparr> hm_name = ''Address'',
          hm_attributes = PlainObject [(''code'', Plain), (''street'', Plain)],
          hm_primaryKey = ''code'' \<rparr>),
      (''Product'', \<lparr> hm_name = ''Product'',
          hm_attributes = PlainObject [(''code'', Plain), (''name'', Plain)],
          hm_primaryKey = ''code'' \<rparr>),
      (''CustomerProduct'', \<lparr> hm_name = ''CustomerProduct'',
          hm_attributes = PlainObject [(''CustomerCode'', Plain), (''ProductCode'', Plain)],
          hm_primaryKey = ''CustomerCode'' \<rparr>)]"
  "outerMaps shopHeap (Suc 0) =
     [(''Customer'', 2), (''Address'', 3), (''Product'', 4), (''CustomerProduct'', 5)]"
  "innerMaps shopHeap 2 =
     [(''Address'', addressAssociation), (''Products'', productsAssociation),
      (''Bought'', boughtAssociation)]"
  "innerMaps shopHeap 3 = []"
  "innerMaps shopHeap 4 = []"
  "innerMaps shopHeap 5 = []"
  "nextRef shopHeap = 6"
  by (simp_all add: shopHeap_def shopModeler_eval shopModels_def shopCalls_def noKeyOptions_def
        newHydraModeler_def newModelMap_def newOuterMap_def newInnerMap_def emptyHeap_def
        orDefault_def orElse_def addModels_def addModel_def mapHas_def newHydraModel_def
        filterValidAttributes_def associate_def getSourceAndTarget_def getModelOrThrow_def
        getModel_def ensureAssocMap_def registerAssociation_def Let_def
        customerModel_def addressModel_def productModel_def customerProductModel_def
        addressAssociation_def productsAssociation_def boughtThrough_def boughtAssociation_def)

lemma pointModeler_eval:
  "pointModeler = \<lparr> mo_models = 0, mo_associations = Suc 0,
       mo_options = \<lparr> defaultPrimaryKey = ''code'', defaultForeignKeySuffix = ''Code'' \<rparr> \<rparr>"
  by (simp add: pointModeler_def newHydraModeler_def newModelMap_def newOuterMap_def emptyHeap_def
        orDefault_def)

lemma pointHeap_eval:
  "modelMaps pointHeap 0 = [(''A'', \<lparr> hm_name = ''A'',
       hm_attributes = PlainObject [(''x'', Plain), (''y'', Plain)], hm_primaryKey = ''x'' \<rparr>)]"
  "outerMaps pointHeap (Suc 0) = [(''A'', 2)]"
  "innerMaps pointHeap 2 = []"
  by (simp_all add: pointHeap_def pointModeler_eval newHydraModeler_def newModelMap_def
        newOuterMap_def emptyHeap_def orDefault_def addModel_def mapHas_def newHydraModel_def
        filterValidAttributes_def newInnerMap_def Let_def)

section \<open>Properties of registration\<close>

lemma map_of_mapSet: "map_of (mapSet m k v) = (map_of m)(k \<mapsto> v)"
  by (induction m) (auto simp: fun_eq_iff)

lemma heapExtends_refl: "heapExtends h h"
  by (simp add: heapExtends_def)

lemma heapExtends_trans: "heapExtends h h1 \<Longrightarrow> heapExtends h1 h2 \<Longrightarrow> heapExtends h h2"
  by (auto simp: heapExtends_def)

lemma ensureAssocMap_extends: "heapExtends h (snd (ensureAssocMap this key h))"
  by (auto simp: heapExtends_def ensureAssocMap_def newInnerMap_def map_of_mapSet
           split: option.splits)

lemma getModel_extends: "heapExtends h (snd (getModel this name noThrow h))"
  using ensureAssocMap_extends [of h this name]
  by (auto simp: getModel_def heapExtends_refl split: option.splits prod.splits)

lemma getModelOrThrow_extends: "heapExtends h (snd (getModelOrThrow this name h))"
  using getModel_extends [of h this name False]
  by (auto simp: getModelOrThrow_def split: prod.splits sum.splits option.splits)

lemma getSourceAndTarget_extends: "heapExtends h (snd (getSourceAndTarget this s t h))"
proof -
  obtain x h1 where 1: "getModelOrThrow this s h = (x, h1)" by force
  obtain y h2 where 2: "getModelOrThrow this t h1 = (y, h2)" by force
  have "heapExtends h h1" using getModelOrThrow_extends [of h this s] 1 by simp
  moreover have "heapExtends h1 h2" using getModelOrThrow_extends [of h1 this t] 2 by simp
  ultimately have "heapExtends h h2" by (rule heapExtends_trans)
  with \<open>heapExtends h h1\<close> show ?thesis
    using 1 2 by (auto simp: getSourceAndTarget_def split: sum.splits)
qed

lemma buildAssociation_extends: "heapExtends h (snd (buildAssociation this s c h))"
proof (cases c)
  case (belongsTo t opts)
  then show ?thesis using getSourceAndTarget_extends [of h this s t]
    by (auto split: prod.splits sum.splits)
next
  case (hasOne t opts)
  then show ?thesis using getSourceAndTarget_extends [of h this s t]
    by (auto split: prod.splits sum.splits)
next
  case (hasMany t al opts)
  then show ?thesis using getSourceAndTarget_extends [of h this s t]
    by (auto simp: heapExtends_refl split: prod.splits sum.splits)
next
  case (belongsToMany t thr opts to)
  obtain x h1 where 1: "getSourceAndTarget this s t h = (x, h1)" by force
  obtain y h2 where 2: "getModel this thr True h1 = (y, h2)" by force
  have a: "heapExtends h h1" using getSourceAndTarget_extends [of h this s t] 1 by simp
  moreover have "heapExtends h1 h2" using getModel_extends [of h1 this thr True] 2 by simp
  ultimately have "heapExtends h h2" by (rule heapExtends_trans)
  with a belongsToMany 1 2 show ?thesis
    by (auto simp: Let_def split: prod.splits sum.splits option.splits)
qed

lemma runBuilder_extends: "heapExtends h (snd (runBuilder this s cs acc h))"
proof (induction cs arbitrary: acc h)
  case Nil
  show ?case by (simp add: heapExtends_refl)
next
  case (Cons c cs)
  obtain x h1 where 1: "buildAssociation this s c h = (x, h1)" by force
  have a: "heapExtends h h1" using buildAssociation_extends [of h this s c] 1 by simp
  show ?case
  proof (cases x)
    case (Inl e)
    with 1 a show ?thesis by simp
  next
    case (Inr as)
    with 1 have "runBuilder this s (c # cs) acc h = runBuilder this s cs (acc @ [as]) h1" by simp
    with heapExtends_trans [OF a Cons.IH [of h1 "acc @ [as]"]] show ?thesis by simp
  qed
qed

lemma registerAssociation_keeps:
  assumes "map_of (outerMaps h (mo_associations this)) s = Some r"
      and "map_of (innerMaps h r) k = Some a0"
  shows "map_of (outerMaps (registerAssociation this s h a) (mo_associations this)) s = Some r
         \<and> map_of (innerMaps (registerAssociation this s h a) r) k = Some a0"
  using assms
  by (auto simp: registerAssociation_def ensureAssocMap_def mapHas_def map_of_mapSet)

lemma foldl_registerAssociation_keeps:
  assumes "map_of (outerMaps h (mo_associations this)) s = Some r"
      and "map_of (innerMaps h r) k = Some a0"
  shows "map_of (outerMaps (foldl (registerAssociation this s) h as) (mo_associations this)) s = Some r
         \<and> map_of (innerMaps (foldl (registerAssociation this s) h as) r) k = Some a0"
  using assms
proof (induction as arbitrary: h)
  case Nil
  then show ?case by simp
next
  case (Cons a as)
  from registerAssociation_keeps [OF Cons.prems, of a] Cons.IH [of "registerAssociation this s h a"]
  show ?case by simp
qed

text \<open>A registered model is found, and looking it up leaves the model map alone.\<close>

lemma getModel_registered:
  assumes "mapHas (modelMaps h (mo_models this)) name"
  shows "\<exists>m h1. getModel this name noThrow h = (Inr (Some m), h1) \<and> modelMaps h1 = modelMaps h"
proof -
  from assms obtain model where "map_of (modelMaps h (mo_models this)) name = Some model"
    by (auto simp: mapHas_def)
  then obtain m h1 where g: "getModel this name noThrow h = (Inr (Some m), h1)"
    by (cases "ensureAssocMap this name h") (simp add: getModel_def)
  from getModel_extends [of h this name noThrow] g have "modelMaps h1 = modelMaps h"
    by (simp add: heapExtends_def)
  with g show ?thesis by blast
qed

lemma getModelOrThrow_registered:
  assumes "mapHas (modelMaps h (mo_models this)) name"
  shows "\<exists>m h1. getModelOrThrow this name h = (Inr m, h1) \<and> modelMaps h1 = modelMaps h"
proof -
  from getModel_registered [OF assms, of False] obtain m h1
    where "getModel this name False h = (Inr (Some m), h1)" and "modelMaps h1 = modelMaps h"
    by blast
  then have "getModelOrThrow this name h = (Inr m, h1) \<and> modelMaps h1 = modelMaps h"
    by (simp add: getModelOrThrow_def)
  then show ?thesis by blast
qed

lemma getSourceAndTarget_registered:
  assumes "mapHas (modelMaps h (mo_models this)) s" and "mapHas (modelMaps h (mo_models this)) t"
  shows "\<exists>source target h1. getSourceAndTarget this s t h = (Inr (source, target), h1)
                             \<and> modelMaps h1 = modelMaps h"
proof -
  from getModelOrThrow_registered [OF assms(1)] obtain source h1
    where 1: "getModelOrThrow this s h = (Inr source, h1)" and m1: "modelMaps h1 = modelMaps h"
    by blast
  from assms(2) m1 have "mapHas (modelMaps h1 (mo_models this)) t" by simp
  from getModelOrThrow_registered [OF this] obtain target h2
    where 2: "getModelOrThrow this t h1 = (Inr target, h2)" and m2: "modelMaps h2 = modelMaps h1"
    by blast
  from 1 2 m1 m2
  have "getSourceAndTarget this s t h = (Inr (source, target), h2) \<and> modelMaps h2 = modelMaps h"
    by (simp add: getSourceAndTarget_def)
  then show ?thesis by blast
qed

text \<open>A declarable call on a registered source builds its association.\<close>

lemma buildAssociation_declarable:
  assumes "mapHas (modelMaps h (mo_models this)) s" and "callDeclarable this h c"
  shows "\<exists>a h1. buildAssociation this s c h = (Inr a, h1) \<and> modelMaps h1 = modelMaps h"
proof -
  have direct: "\<exists>source target h1. getSourceAndTarget this s t h = (Inr (source, target), h1)
                                     \<and> modelMaps h1 = modelMaps h"
    if "mapHas (modelMaps h (mo_models this)) t" for t
    using getSourceAndTarget_registered [OF assms(1) that] .
  show ?thesis
  proof (cases c)
    case (belongsTo t opts)
    with assms(2) have "mapHas (modelMaps h (mo_models this)) t" by simp
    from direct [OF this] obtain source target h1
      where 1: "getSourceAndTarget this s t h = (Inr (source, target), h1)"
        and m1: "modelMaps h1 = modelMaps h" by blast
    from 1 have "\<exists>a. buildAssociation this s (belongsTo t opts) h = (Inr a, h1)"
      by simp
    with m1 belongsTo show ?thesis by auto
  next
    case (hasOne t opts)
    with assms(2) have "mapHas (modelMaps h (mo_models this)) t" by simp
    from direct [OF this] obtain source target h1
      where 1: "getSourceAndTarget this s t h = (Inr (source, target), h1)"
        and m1: "modelMaps h1 = modelMaps h" by blast
    from 1 have "\<exists>a. buildAssociation this s (hasOne t opts) h = (Inr a, h1)"
      by simp
    with m1 hasOne show ?thesis by auto
  next
    case (hasMany t al opts)
    with assms(2) have "mapHas (modelMaps h (mo_models this)) t" and al: "al \<noteq> []" by simp_all
    from direct [OF this(1)] obtain source target h1
      where 1: "getSourceAndTarget this s t h = (Inr (source, target), h1)"
        and m1: "modelMaps h1 = modelMaps h" by blast
    from 1 al have "\<exists>a. buildAssociation this s (hasMany t al opts) h = (Inr a, h1)"
      by simp
    with m1 hasMany show ?thesis by auto
  next
    case (belongsToMany t thr opts to)
    with assms(2) have rt: "mapHas (modelMaps h (mo_models this)) t"
      and rthr: "mapHas (modelMaps h (mo_models this)) thr" by simp_all
    from direct [OF rt] obtain source target h1
      where 1: "getSourceAndTarget this s t h = (Inr (source, target), h1)"
        and m1: "modelMaps h1 = modelMaps h" by blast
    from rthr m1 have "mapHas (modelMaps h1 (mo_models this)) thr" by simp
    from getModel_registered [OF this, of True] obtain throughModel h2
      where 2: "getModel this thr True h1 = (Inr (Some throughModel), h2)"
        and m2: "modelMaps h2 = modelMaps h1" by blast
    from 1 2 have "\<exists>a. buildAssociation this s (belongsToMany t thr opts to) h = (Inr a, h2)"
      by (simp add: Let_def)
    with m1 m2 belongsToMany show ?thesis by auto
  qed
qed

lemma callDeclarable_modelMaps:
  "modelMaps h1 = modelMaps h \<Longrightarrow> callDeclarable this h1 c = callDeclarable this h c"
  by (cases c) simp_all

lemma runBuilder_declarable:
  "mapHas (modelMaps h (mo_models this)) s \<Longrightarrow> list_all (callDeclarable this h) cs \<Longrightarrow>
   \<exists>as h1. runBuilder this s cs acc h = (Inr as, h1)"
proof (induction cs arbitrary: acc h)
  case Nil
  show ?case by simp
next
  case (Cons c cs)
  from Cons.prems have dc: "callDeclarable this h c" by simp
  from buildAssociation_declarable [OF Cons.prems(1) dc] obtain a h1
    where b: "buildAssociation this s c h = (Inr a, h1)" and m: "modelMaps h1 = modelMaps h"
    by blast
  from Cons.prems(1) m have s1: "mapHas (modelMaps h1 (mo_models this)) s" by simp
  from Cons.prems(2) callDeclarable_modelMaps [OF m, of this]
  have cs1: "list_all (callDeclarable this h1) cs" by (simp add: list_all_iff)
  from Cons.IH [OF s1 cs1, of "acc @ [a]"] b show ?case by simp
qed

lemma associate_declarable:
  assumes "mapHas (modelMaps h (mo_models this)) s" and "list_all (callDeclarable this h) calls"
  shows "fst (associate this s calls h) = Inr ()"
proof -
  from runBuilder_declarable [OF assms, of "[]"] obtain as h1
    where "runBuilder this s calls [] h = (Inr as, h1)" by blast
  then show ?thesis by (simp add: associate_def)
qed

text \<open>
  C10. Adding a model under a name that is already registered leaves the store as it
  was. An association entry \<open>a0\<close> registered under the name \<open>k\<close> for a source model is still
  the entry under \<open>k\<close> after any further \<open>associate\<close> call on that source, whatever
  associations the call declares, so a second association of the same name is dropped.
  And the call raises no error: when the source model is registered and every builder
  call is declarable (its target registered, a \<open>hasMany\<close> name given, a join model
  registered), \<open>associate\<close> returns normally, whether or not the names it declares are
  already taken.
\<close>

theorem duplicate_registration_is_discarded:
  "(mapHas (modelMaps h (mo_models this)) name \<longrightarrow> addModel this name attrs pk h = h)
   \<and> (map_of (outerMaps h (mo_associations this)) s = Some r \<and> r < nextRef h
        \<and> map_of (innerMaps h r) k = Some a0
       \<longrightarrow> map_of (outerMaps (snd (associate this s calls h)) (mo_associations this)) s = Some r
           \<and> map_of (innerMaps (snd (associate this s calls h)) r) k = Some a0)
   \<and> (mapHas (modelMaps h (mo_models this)) s \<and> list_all (callDeclarable this h) calls
       \<longrightarrow> fst (associate this s calls h) = Inr ())"
proof (intro conjI impI)
  assume "mapHas (modelMaps h (mo_models this)) name"
  then show "addModel this name attrs pk h = h" by (simp add: addModel_def)
next
  assume a: "map_of (outerMaps h (mo_associations this)) s = Some r \<and> r < nextRef h
        \<and> map_of (innerMaps h r) k = Some a0"
  obtain x h1 where rb: "runBuilder this s calls [] h = (x, h1)" by force
  have ext: "heapExtends h h1" using runBuilder_extends [of h this s calls "[]"] rb by simp
  have o1: "map_of (outerMaps h1 (mo_associations this)) s = Some r"
    using ext a by (auto simp: heapExtends_def)
  have i1: "map_of (innerMaps h1 r) k = Some a0"
    using ext a by (auto simp: heapExtends_def)
  have "map_of (outerMaps (snd (associate this s calls h)) (mo_associations this)) s = Some r
        \<and> map_of (innerMaps (snd (associate this s calls h)) r) k = Some a0"
  proof (cases x)
    case (Inl e)
    with rb o1 i1 show ?thesis by (simp add: associate_def)
  next
    case (Inr as)
    with rb foldl_registerAssociation_keeps [OF o1 i1, of as] show ?thesis
      by (simp add: associate_def)
  qed
  then show "map_of (outerMaps (snd (associate this s calls h)) (mo_associations this)) s = Some r"
    and "map_of (innerMaps (snd (associate this s calls h)) r) k = Some a0" by simp_all
next
  assume "mapHas (modelMaps h (mo_models this)) s \<and> list_all (callDeclarable this h) calls"
  then show "fst (associate this s calls h) = Inr ()"
    using associate_declarable by blast
qed

theorem duplicate_registration_is_discarded_witness:
  "addModel shopModeler ''Customer'' (PlainObject []) (Some ''id'') shopHeap = shopHeap
   \<and> map_of (innerMaps (snd (associate shopModeler ''Customer''
                               [hasOne ''Product'' (noKeyOptions \<lparr> ko_as := Some ''Address'' \<rparr>)]
                               shopHeap)) 2) ''Address''
       = Some addressAssociation
   \<and> fst (associate shopModeler ''Customer''
            [hasOne ''Product'' (noKeyOptions \<lparr> ko_as := Some ''Address'' \<rparr>)] shopHeap) = Inr ()"
proof -
  let ?calls = "[hasOne ''Product'' (noKeyOptions \<lparr> ko_as := Some ''Address'' \<rparr>)]"
  have m: "mapHas (modelMaps shopHeap (mo_models shopModeler)) ''Customer''"
    by (simp add: mapHas_def shopModeler_eval shopHeap_eval)
  have p: "map_of (outerMaps shopHeap (mo_associations shopModeler)) ''Customer'' = Some 2
           \<and> 2 < nextRef shopHeap
           \<and> map_of (innerMaps shopHeap 2) ''Address'' = Some addressAssociation"
    by (simp add: shopModeler_eval shopHeap_eval)
  have d: "list_all (callDeclarable shopModeler shopHeap) ?calls"
    by (simp add: mapHas_def shopModeler_eval shopHeap_eval)
  from duplicate_registration_is_discarded
         [of shopHeap shopModeler "''Customer''" "PlainObject []" "Some ''id''" "''Customer''" 2
             "''Address''" addressAssociation ?calls]
       m p d
  show ?thesis by blast
qed

section \<open>The default primary key of a model\<close>

text \<open>
  C4. In a registry configured with \<open>defaultPrimaryKey: 'id'\<close>, a model added without a
  primary key gets the primary key \<open>code\<close>: \<open>_addModel\<close> hands the absent key to the
  model constructor, whose fallback is the literal \<open>'code'\<close>, and the configured default
  is not consulted.
\<close>

theorem addModel_ignores_configured_default:
  "(let (this, h) = newHydraModeler (Some idOptions) emptyHeap;
        h' = addModel this ''animal'' animalAttributes None h
    in defaultPrimaryKey (mo_options this) = ''id''
       \<and> map (\<lambda>(name, m). (name, hm_primaryKey m)) (modelMaps h' (mo_models this))
           = [(''animal'', ''code'')])"
  by (simp add: newHydraModeler_def newModelMap_def newOuterMap_def emptyHeap_def idOptions_def
        orDefault_def addModel_def mapHas_def newHydraModel_def newInnerMap_def Let_def)

text \<open>In general: whatever the options of the registry, the fallback is \<open>code\<close>.\<close>

lemma addModel_without_primaryKey:
  assumes "\<not> mapHas (modelMaps h (mo_models this)) name"
  shows "map_of (modelMaps (addModel this name attrs None h) (mo_models this)) name
           = Some (newHydraModel name attrs None)
         \<and> hm_primaryKey (newHydraModel name attrs None) = ''code''"
  using assms
  by (simp add: addModel_def newInnerMap_def Let_def map_of_mapSet newHydraModel_def)

section \<open>The row-shape check\<close>

text \<open>
  C7. The two rows \<open>splitRow\<close> and \<open>joinedRow\<close> have different key sets, yet the check
  accepts them, because it compares the sorted keys joined by \<open>|\<close> and a key may contain
  that character. \<open>hydrate\<close> then goes on and returns one object instead of raising
  AllFlatRowsMustHaveSameProperties.
\<close>

theorem hydrate_accepts_rows_with_different_keys:
  "set (map fst splitRow) \<noteq> set (map fst joinedRow)
   \<and> allObjectsHaveSameProperties [splitRow, joinedRow]
   \<and> fst (hydrate pointModeler [splitRow, joinedRow] (Node ''A'' None None []) pointHeap)
       = Inr [[(''x'', Prim (Num 1)), (''y'', Prim (Num 2))]]"
  by (simp add: hydrate_def allObjectsHaveSameProperties_def joinedRow_def splitRow_def
       Hydrator_hydrate_def checkAllSchemaAliasesPresent_def columnPrefix_def nodeAlias_def
       orDefault_def getModel_def ensureAssocMap_def pointModeler_eval pointHeap_eval
       groupRowsByPK_def mapHas_def groupStep_def rowGet_def Let_def copyAttributes_def
       objectKeys_def)

lemma join_Cons:
  "join sep (x # xs) = (if xs = [] then x else x @ sep @ join sep xs)"
  by (cases xs) simp_all

lemma append_sep_eq:
  assumes "CHR ''|'' \<notin> set x" and "CHR ''|'' \<notin> set y"
      and "x @ CHR ''|'' # r = y @ CHR ''|'' # s"
  shows "x = y \<and> r = s"
proof -
  have "takeWhile (\<lambda>c. c \<noteq> CHR ''|'') (x @ CHR ''|'' # r) = x"
    using assms(1) by (subst takeWhile_append2) auto
  moreover have "takeWhile (\<lambda>c. c \<noteq> CHR ''|'') (y @ CHR ''|'' # s) = y"
    using assms(2) by (subst takeWhile_append2) auto
  ultimately have "x = y" using assms(3) by simp
  with assms(3) show ?thesis by simp
qed

lemma join_plain_nonempty:
  "ks \<noteq> [] \<Longrightarrow> list_all plainKey ks \<Longrightarrow> join ''|'' ks \<noteq> []"
  by (cases ks) (auto simp: join_Cons plainKey_def)

lemma join_plain_inj:
  "list_all plainKey ks \<Longrightarrow> list_all plainKey ls \<Longrightarrow> join ''|'' ks = join ''|'' ls \<Longrightarrow> ks = ls"
proof (induction ks arbitrary: ls)
  case Nil
  then show ?case using join_plain_nonempty [of ls] by (cases ls) auto
next
  case (Cons k ks)
  from Cons.prems join_plain_nonempty [of "k # ks"] obtain l ls' where ls: "ls = l # ls'"
    by (cases ls) auto
  from Cons.prems ls have pk: "CHR ''|'' \<notin> set k" and pl: "CHR ''|'' \<notin> set l"
    by (simp_all add: plainKey_def)
  show ?case
  proof (cases "ks = []")
    case True
    show ?thesis
    proof (cases "ls' = []")
      case True
      with \<open>ks = []\<close> Cons.prems ls show ?thesis by simp
    next
      case False
      with \<open>ks = []\<close> Cons.prems ls have "k = l @ CHR ''|'' # join ''|'' ls'"
        by (simp add: join_Cons)
      with pk show ?thesis by auto
    qed
  next
    case False
    show ?thesis
    proof (cases "ls' = []")
      case True
      with \<open>ks \<noteq> []\<close> Cons.prems ls have "l = k @ CHR ''|'' # join ''|'' ks"
        by (simp add: join_Cons)
      with pl show ?thesis by auto
    next
      case nonempty: False
      with False Cons.prems ls
      have "k @ CHR ''|'' # join ''|'' ks = l @ CHR ''|'' # join ''|'' ls'"
        by (simp add: join_Cons)
      from append_sep_eq [OF pk pl this] have "k = l" and "join ''|'' ks = join ''|'' ls'"
        by simp_all
      moreover from Cons.prems ls have "list_all plainKey ks" "list_all plainKey ls'" by simp_all
      ultimately show ?thesis using Cons.IH [of ls'] ls by simp
    qed
  qed
qed

text \<open>
  What the row-shape check does guarantee: it comes first, and on rows whose keys are
  not empty and contain no \<open>|\<close> it rejects every input in which two rows differ in
  their key sets, whatever the order of the keys within a row.
\<close>

lemma hydrate_shape_check_first:
  "\<not> allObjectsHaveSameProperties rows \<Longrightarrow>
   hydrate this rows schema h = (Inl AllFlatRowsMustHaveSamePropertiesError, h)"
  by (simp add: hydrate_def)

lemma allObjectsHaveSameProperties_plain:
  assumes "allObjectsHaveSameProperties rows"
      and "\<forall>r \<in> set rows. list_all plainKey (map fst r)"
      and "r1 \<in> set rows" and "r2 \<in> set rows"
  shows "set (map fst r1) = set (map fst r2)"
proof (cases rows)
  case Nil
  with assms(3) show ?thesis by simp
next
  case (Cons first rest)
  show ?thesis
  proof (cases "rest = []")
    case True
    with Cons assms(3,4) show ?thesis by simp
  next
    case False
    have same: "set (map fst r) = set (map fst first)" if "r \<in> set rows" for r
    proof -
      from assms(1) Cons False that
      have j: "join ''|'' (sort (map fst r)) = join ''|'' (sort (map fst first))"
        by (auto simp: allObjectsHaveSameProperties_def Let_def list_all_iff)
      have pr: "list_all plainKey (sort (map fst r))"
        using assms(2) that by (simp add: list_all_iff)
      have pf: "list_all plainKey (sort (map fst first))"
        using assms(2) Cons by (simp add: list_all_iff)
      from join_plain_inj [OF pr pf j] have "sort (map fst r) = sort (map fst first)" .
      then have "set (sort (map fst r)) = set (sort (map fst first))" by simp
      then show ?thesis by simp
    qed
    from same [OF assms(3)] same [OF assms(4)] show ?thesis by simp
  qed
qed

lemma hydrate_rejects_plain_heterogeneous_rows:
  assumes "\<forall>r \<in> set rows. list_all plainKey (map fst r)"
      and "r1 \<in> set rows" and "r2 \<in> set rows"
      and "set (map fst r1) \<noteq> set (map fst r2)"
  shows "hydrate this rows schema h = (Inl AllFlatRowsMustHaveSamePropertiesError, h)"
  using allObjectsHaveSameProperties_plain [OF _ assms(1,2,3)] assms(4)
        hydrate_shape_check_first [of rows this schema h]
  by blast

section \<open>Hydration and the store\<close>

lemma ensureAssocMap_present:
  "mapHas (outerMaps h (mo_associations this)) key \<Longrightarrow> snd (ensureAssocMap this key h) = h"
  by (auto simp: ensureAssocMap_def mapHas_def)

lemma registryOk_lookup:
  assumes "registryOk this h" and "map_of (modelMaps h (mo_models this)) name = Some m"
  shows "hm_name m = name \<and> mapHas (outerMaps h (mo_associations this)) name"
proof -
  from assms(2) have "(name, m) \<in> set (modelMaps h (mo_models this))" by (rule map_of_SomeD)
  with assms(1) show ?thesis by (auto simp: registryOk_def list_all_iff)
qed

lemma getModel_ok:
  assumes "registryOk this h" and "getModel this name noThrow h = (x, h1)"
  shows "h1 = h \<and> (\<forall>model. x = Inr (Some model) \<longrightarrow>
            mapHas (outerMaps h (mo_associations this)) (m_name model))"
proof (cases "map_of (modelMaps h (mo_models this)) name")
  case None
  with assms(2) show ?thesis by (auto simp: getModel_def split: if_splits)
next
  case (Some m)
  from registryOk_lookup [OF assms(1) Some]
  have n: "hm_name m = name" and p: "mapHas (outerMaps h (mo_associations this)) name" by simp_all
  from ensureAssocMap_present [OF p] have "snd (ensureAssocMap this name h) = h" .
  with assms(2) Some n p show ?thesis
    by (auto simp: getModel_def split: prod.splits)
qed

lemma getAssociation_ok:
  "mapHas (outerMaps h (mo_associations this)) n \<Longrightarrow> snd (getAssociation this n k h) = h"
  using ensureAssocMap_present [of h this n]
  by (auto simp: getAssociation_def getAssociations_def split: prod.splits)

lemma planChild_ok:
  "mapHas (outerMaps h (mo_associations this)) (m_name model) \<Longrightarrow>
   snd (planChild this model al r rows child h) = h"
  using getAssociation_ok [of h this "m_name model" "nodeAlias child"]
  by (auto simp: planChild_def split: prod.splits option.splits sum.splits list.splits)

lemma hydrate_keeps_heap:
  "registryOk this h \<Longrightarrow> snd (hydrateModelRecursive this node rows ps h) = h"
  "registryOk this h \<Longrightarrow> mapHas (outerMaps h (mo_associations this)) (m_name model) \<Longrightarrow>
     snd (hydrateChildren this model al r rows ps cs result h) = h"
  "registryOk this h \<Longrightarrow> snd (hydrateGroups this node groups ps h) = h"
proof (induction this node rows ps h and this model al r rows ps cs result h
         and this node groups ps h
       rule: hydrateModelRecursive_hydrateChildren_hydrateGroups.induct)
  case (1 hydraBuilder m a p cs rows parentsIn h)
  obtain x h1 where g: "getModel hydraBuilder m True h = (x, h1)" by force
  from getModel_ok [OF "1.prems" g]
  have h1: "h1 = h"
    and has: "\<And>model. x = Inr (Some model) \<Longrightarrow>
                mapHas (outerMaps h (mo_associations hydraBuilder)) (m_name model)" by auto
  show ?case
  proof (cases x)
    case (Inl e)
    with g h1 show ?thesis by simp
  next
    case (Inr b)
    show ?thesis
    proof (cases b)
      case None
      with Inr g h1 show ?thesis by simp
    next
      case (Some model)
      show ?thesis
      proof (cases rows)
        case Nil
        with Some Inr g h1 show ?thesis by simp
      next
        case (Cons r rs)
        from "1.IH" [OF g [symmetric] Inr Some Cons] "1.prems" has [of model] Inr Some h1
        have "snd (hydrateChildren hydraBuilder model (nodeAlias (Node m a p cs)) r rows parentsIn cs
                (copyAttributes model (nodeAlias (Node m a p cs)) r) h) = h" by simp
        with Some Inr g h1 Cons show ?thesis
          by (auto split: prod.splits sum.splits option.splits)
      qed
    qed
  qed
next
  case (2 hydraBuilder model al r rows parentsIn result h)
  show ?case by simp
next
  case (3 hydraBuilder model al r rows parentsIn child cs result h)
  obtain x h1 where pl: "planChild hydraBuilder model al r rows child h = (x, h1)" by force
  have h1: "h1 = h" using planChild_ok [OF "3.prems"(2), of al r rows child] pl by simp
  show ?case
  proof (cases x)
    case Skip
    from "3.IH"(1) [OF pl [symmetric] Skip] "3.prems" h1 pl Skip show ?thesis by simp
  next
    case (Throw e)
    with pl h1 show ?thesis by simp
  next
    case (HydrateAll key groups)
    obtain y h2 where hg: "hydrateGroups hydraBuilder child groups (mapSet parentsIn al result) h1 = (y, h2)"
      by force
    from "3.IH"(2) [OF pl [symmetric] HydrateAll] "3.prems"(1) h1 hg have h2: "h2 = h" by simp
    show ?thesis
    proof (cases y)
      case (Inl e)
      with pl HydrateAll hg h2 show ?thesis by simp
    next
      case (Inr objs)
      from "3.IH"(3) [OF pl [symmetric] HydrateAll hg [symmetric] Inr] "3.prems" h2
      show ?thesis using pl HydrateAll hg Inr by simp
    qed
  next
    case (HydrateFirst key firstGroup)
    obtain y h2 where hg: "hydrateModelRecursive hydraBuilder child firstGroup (mapSet parentsIn al result) h1 = (y, h2)"
      by force
    from "3.IH"(4) [OF pl [symmetric] HydrateFirst] "3.prems"(1) h1 hg have h2: "h2 = h" by simp
    show ?thesis
    proof (cases y)
      case (Inl e)
      with pl HydrateFirst hg h2 show ?thesis by simp
    next
      case (Inr obj)
      from "3.IH"(5) [OF pl [symmetric] HydrateFirst hg [symmetric] Inr] "3.prems" h2
      show ?thesis using pl HydrateFirst hg Inr by simp
    qed
  qed
next
  case (4 hydraBuilder schema parentsIn h)
  show ?case by simp
next
  case (5 hydraBuilder schema grp groups parentsIn h)
  obtain y h1 where hm: "hydrateModelRecursive hydraBuilder schema grp parentsIn h = (y, h1)" by force
  from "5.IH"(1) [OF "5.prems"] hm have h1: "h1 = h" by simp
  show ?case
  proof (cases y)
    case (Inl e)
    with hm h1 show ?thesis by simp
  next
    case (Inr obj)
    from "5.IH"(2) [OF hm [symmetric] Inr] "5.prems" h1
    have "snd (hydrateGroups hydraBuilder schema groups parentsIn h) = h" by simp
    with hm h1 Inr show ?thesis by (auto split: prod.splits sum.splits)
  qed
qed

lemma registryOk_newHydraModeler:
  "registryOk (fst (newHydraModeler opts h)) (snd (newHydraModeler opts h))"
  by (simp add: registryOk_def newHydraModeler_def newModelMap_def newOuterMap_def Let_def
        split: prod.splits)

lemma mapHas_mapSet: "mapHas (mapSet m k v) k' = (k' = k \<or> mapHas m k')"
  by (simp add: mapHas_def map_of_mapSet)

lemma set_mapSet_subset: "set (mapSet m k v) \<subseteq> insert (k, v) (set m)"
  by (induction m) (auto split: if_splits)

lemma registryOk_addModel:
  assumes "registryOk this h"
  shows "registryOk this (addModel this name attrs pk h)"
proof (cases "mapHas (modelMaps h (mo_models this)) name")
  case True
  with assms show ?thesis by (simp add: addModel_def)
next
  case False
  have "hm_name m = n \<and> (n = name \<or> mapHas (outerMaps h (mo_associations this)) n)"
    if "(n, m) \<in> set (mapSet (modelMaps h (mo_models this)) name (newHydraModel name attrs pk))"
    for n m
  proof -
    from that set_mapSet_subset
    have "(n, m) = (name, newHydraModel name attrs pk) \<or> (n, m) \<in> set (modelMaps h (mo_models this))"
      by fastforce
    then show ?thesis
      using assms by (auto simp: registryOk_def list_all_iff newHydraModel_def Let_def)
  qed
  with False show ?thesis
    by (auto simp: registryOk_def list_all_iff addModel_def newInnerMap_def mapHas_mapSet Let_def)
qed

lemma registryOk_extends:
  assumes "registryOk this h" and "heapExtends h h'"
  shows "registryOk this h'"
  using assms by (fastforce simp: registryOk_def list_all_iff heapExtends_def mapHas_def)

lemma registryOk_registerAssociation:
  assumes "registryOk this h"
  shows "registryOk this (registerAssociation this s h a)"
proof -
  obtain r h1 where e: "ensureAssocMap this s h = (r, h1)" by force
  have "registryOk this h1"
    using registryOk_extends [OF assms ensureAssocMap_extends [of h this s]] e by simp
  then show ?thesis using e by (simp add: registerAssociation_def registryOk_def)
qed

lemma registryOk_associate:
  assumes "registryOk this h"
  shows "registryOk this (snd (associate this s calls h))"
proof -
  obtain x h1 where rb: "runBuilder this s calls [] h = (x, h1)" by force
  have ok1: "registryOk this h1"
    using registryOk_extends [OF assms runBuilder_extends [of h this s calls "[]"]] rb by simp
  have "registryOk this (foldl (registerAssociation this s) k as)" if "registryOk this k" for k as
    using that by (induction as arbitrary: k) (simp_all add: registryOk_registerAssociation)
  with ok1 rb show ?thesis by (cases x) (simp_all add: associate_def)
qed

lemma zooModeler_eval:
  "zooModeler = \<lparr> mo_models = 0, mo_associations = Suc 0,
       mo_options = \<lparr> defaultPrimaryKey = ''code'', defaultForeignKeySuffix = ''Code'' \<rparr> \<rparr>"
  by (simp add: zooModeler_def newHydraModeler_def newModelMap_def newOuterMap_def emptyHeap_def
        orDefault_def)

lemma zooHeap_eval:
  "modelMaps zooHeap 0 = [(''animal'', zooAnimal)]"
  "outerMaps zooHeap (Suc 0) = [(''animal'', 2)]"
  "innerMaps zooHeap 2 = []"
  by (simp_all add: zooHeap_def zooModeler_eval newHydraModeler_def newModelMap_def
        newOuterMap_def emptyHeap_def orDefault_def addModel_def mapHas_def newHydraModel_def
        filterValidAttributes_def newInnerMap_def Let_def zooAnimal_def animalAttributes_def)

lemma zoo_registryOk: "registryOk zooModeler zooHeap"
  by (simp add: registryOk_def zooModeler_eval zooHeap_eval mapHas_def zooAnimal_def)

lemma zoo_hydrate:
  "hydrate zooModeler [dog, stray, puppy] zooSchema zooHeap
     = (Inr [[(''id'', Prim (Num 1)), (''name'', Prim (Str ''Dog''))]], zooHeap)"
  by (simp add: hydrate_def allObjectsHaveSameProperties_def dog_def stray_def puppy_def
       Hydrator_hydrate_def checkAllSchemaAliasesPresent_def columnPrefix_def nodeAlias_def
       orDefault_def getModel_def ensureAssocMap_def zooModeler_eval zooHeap_eval zooSchema_def
       groupRowsByPK_def mapHas_def groupStep_def rowGet_def Let_def copyAttributes_def
       objectKeys_def zooAnimal_def animalAttributes_def)

lemma Hydrator_hydrate_keeps_heap:
  assumes "registryOk this h"
  shows "snd (Hydrator_hydrate rows this schema h) = h"
proof -
  obtain x h1 where g: "getModel this (n_model schema) True h = (x, h1)" by force
  from getModel_ok [OF assms g] have h1: "h1 = h" by simp
  show ?thesis
    using g h1 hydrate_keeps_heap(3) [OF assms]
    by (auto simp: Hydrator_hydrate_def split: sum.splits option.splits)
qed

lemma hydrate_keeps_store:
  assumes "registryOk this h"
  shows "snd (hydrate this rows schema h) = h"
  using Hydrator_hydrate_keeps_heap [OF assms] by (simp add: hydrate_def)

text \<open>
  C9. In a registry built through the public interface (every registered model has its
  association map, under its own name), a call of \<open>hydrate\<close> leaves the store as it
  found it, so the same call made again returns the same result.
\<close>

theorem hydrate_twice_same_result:
  assumes "registryOk this h" and "hydrate this rows schema h = (out, h')"
  shows "h' = h \<and> hydrate this rows schema h' = (out, h')"
proof -
  from hydrate_keeps_store [OF assms(1), of rows schema] assms(2) have "h' = h" by simp
  with assms(2) show ?thesis by simp
qed

theorem hydrate_twice_same_result_witness:
  "registryOk zooModeler zooHeap
   \<and> hydrate zooModeler [dog, stray, puppy] zooSchema zooHeap
       = (Inr [[(''id'', Prim (Num 1)), (''name'', Prim (Str ''Dog''))]], zooHeap)"
  using hydrate_twice_same_result [OF zoo_registryOk zoo_hydrate] zoo_registryOk by simp

lemma hydrateGroups_each:
  assumes "registryOk this h"
  shows "hydrateGroups this schema groups ps h = (Inr out, h') \<Longrightarrow>
         length out = length groups
         \<and> (\<forall>i < length groups. fst (hydrateModelRecursive this schema (groups ! i) ps h) = Inr (out ! i))"
proof (induction groups arbitrary: out)
  case Nil
  then show ?case by simp
next
  case (Cons g gs)
  obtain y h1 where hm: "hydrateModelRecursive this schema g ps h = (y, h1)" by force
  from hydrate_keeps_heap(1) [OF assms, of schema g ps] hm have h1: "h1 = h" by simp
  from Cons.prems hm obtain obj where y: "y = Inr obj" by (cases y) auto
  obtain z h2 where hg: "hydrateGroups this schema gs ps h = (z, h2)" by force
  from Cons.prems hm h1 y hg obtain objs where z: "z = Inr objs" and out: "out = obj # objs"
    by (cases z) auto
  from Cons.prems hm h1 y hg z have "h2 = h'" by simp
  with Cons.IH [of objs] hg z
  have ih: "length objs = length gs
            \<and> (\<forall>i < length gs. fst (hydrateModelRecursive this schema (gs ! i) ps h) = Inr (objs ! i))"
    by simp
  show ?case
  proof (intro conjI allI impI)
    show "length out = length (g # gs)" using ih out by simp
  next
    fix i assume "i < length (g # gs)"
    then show "fst (hydrateModelRecursive this schema ((g # gs) ! i) ps h) = Inr (out ! i)"
      using ih out hm y by (cases i) auto
  qed
qed

text \<open>
  C1, as amended. When \<open>hydrate\<close> returns, it returns one object per distinct truthy
  value of the root identity column, in the order in which these values first appear in
  the rows: the object at position \<open>i\<close> is the one the tree builder makes of the rows
  that carry the \<open>i\<close>-th such value.
\<close>

theorem hydrate_one_object_per_truthy_identity:
  assumes "registryOk this h"
      and "map_of (modelMaps h (mo_models this)) (n_model schema) = Some rootModel"
      and "hydrate this rows schema h = (Inr out, h')"
  shows "(let column = nodeAlias schema @ ''.'' @ hm_primaryKey rootModel;
              ids = firstAppearances (filter truthy (map (\<lambda>r. rowGet r column) rows))
          in length out = length ids
             \<and> (\<forall>i < length ids.
                   fst (hydrateModelRecursive this schema
                          (filter (\<lambda>r. rowGet r column = ids ! i) rows) [] h) = Inr (out ! i)))"
proof -
  let ?f = "\<lambda>r. rowGet r (nodeAlias schema @ ''.'' @ hm_primaryKey rootModel)"
  let ?ids = "firstAppearances (filter truthy (map ?f rows))"
  obtain x h1 where g: "getModel this (n_model schema) True h = (x, h1)" by force
  from getModel_ok [OF assms(1) g] have h1: "h1 = h" by simp
  from g assms(2) obtain r where x: "x = Inr (Some \<lparr> m_name = hm_name rootModel,
       m_attributes = hm_attributes rootModel, m_primaryKey = hm_primaryKey rootModel,
       m_associations = r \<rparr>)"
    by (auto simp: getModel_def split: prod.splits)
  let ?model = "\<lparr> m_name = hm_name rootModel,
       m_attributes = hm_attributes rootModel, m_primaryKey = hm_primaryKey rootModel,
       m_associations = r \<rparr>"
  from assms(3) have hh: "Hydrator_hydrate rows this schema h = (Inr out, h')"
    by (simp add: hydrate_def split: if_splits)
  then obtain groups where gr: "groupRowsByPK rows ?model (nodeAlias schema) = Inr groups"
    and hg: "hydrateGroups this schema (map snd groups) [] h = (Inr out, h')"
    using g x h1 by (auto simp: Hydrator_hydrate_def split: sum.splits)
  from groupRowsByPK_Inr [OF gr] have groups: "groups = groupsOf truthy ?f rows" by simp
  then have len: "length groups = length ?ids" by (simp add: groupsOf_def)
  have nth: "map snd groups ! i = filter (\<lambda>r. ?f r = ?ids ! i) rows" if "i < length ?ids" for i
    using that by (simp add: groups groupsOf_def)
  from hydrateGroups_each [OF assms(1) hg] len nth
  have "length out = length ?ids
        \<and> (\<forall>i < length ?ids.
              fst (hydrateModelRecursive this schema (filter (\<lambda>r. ?f r = ?ids ! i) rows) [] h)
              = Inr (out ! i))"
    by auto
  then show ?thesis by (simp add: Let_def)
qed

theorem hydrate_one_object_per_truthy_identity_witness:
  "length [[(''id'', Prim (Num 1)), (''name'', Prim (Str ''Dog''))]]
     = length (firstAppearances (filter truthy (map (\<lambda>r. rowGet r ''Animal.id'') [dog, stray, puppy])))"
proof -
  have reg: "map_of (modelMaps zooHeap (mo_models zooModeler)) (n_model zooSchema) = Some zooAnimal"
    by (simp add: zooModeler_eval zooHeap_eval zooSchema_def)
  have col: "nodeAlias zooSchema @ ''.'' @ hm_primaryKey zooAnimal = ''Animal.id''"
    by (simp add: nodeAlias_def orDefault_def zooSchema_def zooAnimal_def)
  from hydrate_one_object_per_truthy_identity [OF zoo_registryOk reg zoo_hydrate]
  show ?thesis unfolding Let_def col by (rule conjunct1)
qed

text \<open>
  C1 as stated (one object per distinct identity value) fails on a row whose identity
  value is \<open>null\<close>: the column has one distinct value, and no object is returned.
\<close>

theorem hydrate_null_identity_counterexample:
  "fst (hydrate zooModeler [stray] zooSchema zooHeap) = Inr []
   \<and> firstAppearances [rowGet stray ''Animal.id''] = [Null]"
  by (simp add: hydrate_def allObjectsHaveSameProperties_def stray_def
       Hydrator_hydrate_def checkAllSchemaAliasesPresent_def columnPrefix_def nodeAlias_def
       orDefault_def getModel_def ensureAssocMap_def zooModeler_eval zooHeap_eval zooSchema_def
       groupRowsByPK_def mapHas_def groupStep_def rowGet_def Let_def zooAnimal_def
       firstAppearances_def)

section \<open>Missing aliases\<close>

lemma checkNode_iff:
  "checkNode ps n = (if \<exists>x \<in> set (nodesOf n). nodeAlias x \<notin> set ps
                     then Inl SchemaAliasMissingError else Inr ())"
  "checkNodes ps ns = (if \<exists>n \<in> set ns. \<exists>x \<in> set (nodesOf n). nodeAlias x \<notin> set ps
                       then Inl SchemaAliasMissingError else Inr ())"
  by (induction ps n and ps ns rule: checkNode_checkNodes.induct) auto

lemma groupRowsByPK_Inr_hasKeys:
  assumes "groupRowsByPK rows model al = Inr groups" and "rows \<noteq> []"
  shows "hasKeys rows al"
proof -
  from assms obtain r rs where rows: "rows = r # rs" by (cases rows) auto
  with assms(1) have "mapHas r (al @ ''.'' @ m_primaryKey model)"
    by (auto simp: groupRowsByPK_def Let_def split: if_splits)
  then have "al @ ''.'' @ m_primaryKey model \<in> fst ` set r"
    by (auto simp: mapHas_def map_of_eq_None_iff)
  moreover have "startsWith (al @ ''.'' @ m_primaryKey model) (al @ ''.'')"
    by (simp add: startsWith_def)
  ultimately show ?thesis
    unfolding hasKeys_def rows list_ex_iff by fastforce
qed

text \<open>
  C3. With a first row at hand, a schema node whose effective alias is no column prefix
  of that row makes \<open>Hydrator.hydrate\<close>, and \<open>hydrate\<close> on rows that pass the row-shape
  check, fail with SchemaAliasMissing. A child whose association is declared and whose
  rows group to no identity raises nothing: for \<open>HasMany\<close> the loop assigns the empty
  array under the output key, for \<open>BelongsTo\<close> and \<open>HasOne\<close> it assigns nothing, and in
  both cases it goes on with the remaining children.
\<close>

theorem alias_miss_hard_and_soft:
  "(x \<in> set (nodesOf schema) \<and> nodeAlias x \<notin> set (map (columnPrefix \<circ> fst) r0)
      \<longrightarrow> Hydrator_hydrate (r0 # rest) this schema h = (Inl SchemaAliasMissingError, h)
          \<and> (allObjectsHaveSameProperties (r0 # rest)
               \<longrightarrow> hydrate this (r0 # rest) schema h = (Inl SchemaAliasMissingError, h)))
   \<and> (rows \<noteq> [] \<and> getAssociation this (m_name model) (nodeAlias child) h = (Some assoc, h1)
        \<and> a_associationType assoc \<noteq> BelongsToMany
        \<and> groupRowsByPK rows (a_target assoc) (nodeAlias child) = Inr []
      \<longrightarrow> hydrateChildren this model al r rows ps (child # cs) result h
            = hydrateChildren this model al r rows ps cs
                (if a_associationType assoc = HasMany
                 then mapSet result (outputKey child assoc) (Arr []) else result) h1)"
proof (intro conjI impI)
  assume a: "x \<in> set (nodesOf schema) \<and> nodeAlias x \<notin> set (map (columnPrefix \<circ> fst) r0)"
  then have "checkAllSchemaAliasesPresent schema (r0 # rest) = Inl SchemaAliasMissingError"
    by (auto simp: checkAllSchemaAliasesPresent_def checkNode_iff(1))
  then show hh: "Hydrator_hydrate (r0 # rest) this schema h = (Inl SchemaAliasMissingError, h)"
    by (simp add: Hydrator_hydrate_def)
  assume "allObjectsHaveSameProperties (r0 # rest)"
  with hh show "hydrate this (r0 # rest) schema h = (Inl SchemaAliasMissingError, h)"
    by (simp add: hydrate_def)
next
  assume a: "rows \<noteq> [] \<and> getAssociation this (m_name model) (nodeAlias child) h = (Some assoc, h1)
        \<and> a_associationType assoc \<noteq> BelongsToMany
        \<and> groupRowsByPK rows (a_target assoc) (nodeAlias child) = Inr []"
  then have hk: "hasKeys rows (nodeAlias child)"
    using groupRowsByPK_Inr_hasKeys by blast
  have "planChild this model al r rows child h
          = (if a_associationType assoc = HasMany then HydrateAll (outputKey child assoc) [] else Skip, h1)"
    using a hk by (simp add: planChild_def)
  then show "hydrateChildren this model al r rows ps (child # cs) result h
            = hydrateChildren this model al r rows ps cs
                (if a_associationType assoc = HasMany
                 then mapSet result (outputKey child assoc) (Arr []) else result) h1"
    by simp
qed

theorem alias_miss_hard_and_soft_witness:
  "hydrate shopModeler [loneCustomer] (Node ''Customer'' None None [Node ''Product'' None None []]) shopHeap
     = (Inl SchemaAliasMissingError, shopHeap)
   \<and> hydrateChildren shopModeler customerModel ''Customer'' loneCustomer [loneCustomer] []
        [productsNode] [] shopHeap = (Inr [(''Products'', Arr [])], shopHeap)
   \<and> hydrateChildren shopModeler customerModel ''Customer'' loneCustomer [loneCustomer] []
        [addressNode] [] shopHeap = (Inr [], shopHeap)"
proof -
  let ?schema = "Node ''Customer'' None None [Node ''Product'' None None []]"
  have 1: "Node ''Product'' None None [] \<in> set (nodesOf ?schema)
           \<and> nodeAlias (Node ''Product'' None None []) \<notin> set (map (columnPrefix \<circ> fst) loneCustomer)"
    by (simp add: nodeAlias_def orDefault_def loneCustomer_def columnPrefix_def)
  have 2: "allObjectsHaveSameProperties [loneCustomer]"
    by (simp add: allObjectsHaveSameProperties_def)
  have 3: "[loneCustomer] \<noteq> []
           \<and> getAssociation shopModeler (m_name customerModel) (nodeAlias productsNode) shopHeap
               = (Some productsAssociation, shopHeap)
           \<and> a_associationType productsAssociation \<noteq> BelongsToMany
           \<and> groupRowsByPK [loneCustomer] (a_target productsAssociation) (nodeAlias productsNode) = Inr []"
    by (simp add: getAssociation_def getAssociations_def ensureAssocMap_def shopModeler_eval
          shopHeap_eval customerModel_def productsNode_def nodeAlias_def orDefault_def
          productsAssociation_def productModel_def groupRowsByPK_def mapHas_def loneCustomer_def
          groupStep_def rowGet_def Let_def)
  have 4: "[loneCustomer] \<noteq> []
           \<and> getAssociation shopModeler (m_name customerModel) (nodeAlias addressNode) shopHeap
               = (Some addressAssociation, shopHeap)
           \<and> a_associationType addressAssociation \<noteq> BelongsToMany
           \<and> groupRowsByPK [loneCustomer] (a_target addressAssociation) (nodeAlias addressNode) = Inr []"
    by (simp add: getAssociation_def getAssociations_def ensureAssocMap_def shopModeler_eval
          shopHeap_eval customerModel_def addressNode_def nodeAlias_def orDefault_def
          addressAssociation_def addressModel_def groupRowsByPK_def mapHas_def loneCustomer_def
          groupStep_def rowGet_def Let_def)
  have k: "outputKey productsNode productsAssociation = ''Products''"
    by (simp add: outputKey_def productsNode_def nodeAlias_def orDefault_def)
  have t: "a_associationType productsAssociation = HasMany"
          "a_associationType addressAssociation \<noteq> HasMany"
    by (simp_all add: productsAssociation_def addressAssociation_def)
  from alias_miss_hard_and_soft
         [of "Node ''Product'' None None []" ?schema loneCustomer "[]" shopModeler shopHeap
             "[loneCustomer]" customerModel productsNode productsAssociation shopHeap
             "''Customer''" loneCustomer "[]" "[]" "[]"] 1 2 3
  have a: "hydrate shopModeler [loneCustomer] ?schema shopHeap = (Inl SchemaAliasMissingError, shopHeap)"
    and b: "hydrateChildren shopModeler customerModel ''Customer'' loneCustomer [loneCustomer] []
              [productsNode] [] shopHeap
            = hydrateChildren shopModeler customerModel ''Customer'' loneCustomer [loneCustomer] [] []
                (if a_associationType productsAssociation = HasMany
                 then mapSet [] (outputKey productsNode productsAssociation) (Arr []) else []) shopHeap"
    by blast+
  from alias_miss_hard_and_soft
         [of "Node ''Product'' None None []" ?schema loneCustomer "[]" shopModeler shopHeap
             "[loneCustomer]" customerModel addressNode addressAssociation shopHeap
             "''Customer''" loneCustomer "[]" "[]" "[]"] 4
  have c: "hydrateChildren shopModeler customerModel ''Customer'' loneCustomer [loneCustomer] []
              [addressNode] [] shopHeap
            = hydrateChildren shopModeler customerModel ''Customer'' loneCustomer [loneCustomer] [] []
                (if a_associationType addressAssociation = HasMany
                 then mapSet [] (outputKey addressNode addressAssociation) (Arr []) else []) shopHeap"
    by blast
  from a b c k t show ?thesis by simp
qed

section \<open>The many-to-many branch\<close>

lemma hydrateGroups_length:
  "hydrateGroups this schema groups ps h = (Inr objs, h') \<Longrightarrow> length objs = length groups"
proof (induction groups arbitrary: objs h)
  case Nil
  then show ?case by simp
next
  case (Cons g gs)
  then show ?case
    by (auto split: prod.splits sum.splits)
qed

lemma relevantRows_filter:
  "relevantRows this assoc t al childAlias r rows =
     filter (\<lambda>x. rowGet x (joinAlias t @ ''.'' @ joinToParentFK this assoc t)
                    = rowGet r (al @ ''.'' @ parentSourceKey assoc)
                 \<and> \<not> nullish (rowGet x (childAlias @ ''.'' @ childTargetKey assoc))
                 \<and> (nullish (rowGet x (joinAlias t @ ''.'' @ joinToChildFK this assoc t))
                     \<or> rowGet x (joinAlias t @ ''.'' @ joinToChildFK this assoc t)
                        = rowGet x (childAlias @ ''.'' @ childTargetKey assoc))) rows"
  unfolding relevantRows_def
  by (rule filter_cong) (auto simp: isRelevantRow_def Let_def)

lemma map_snd_groupsOf_all:
  "map snd (groupsOf (\<lambda>v. True) f rows)
     = map (\<lambda>k. filter (\<lambda>x. f x = k) rows) (firstAppearances (map f rows))"
  by (simp add: groupsOf_def comp_def)

lemma length_firstAppearances: "length (firstAppearances xs) = card (set xs)"
  using distinct_card [of "firstAppearances xs"] by simp

text \<open>
  C2. For a child reached through a \<open>BelongsToMany\<close> association with a join model, the
  rows kept are those whose join parent-foreign-key column equals the parent's
  source-key value, whose child target-key column is neither \<open>null\<close> nor \<open>undefined\<close>, and
  whose join child-foreign-key column is \<open>null\<close>, \<open>undefined\<close> or equal to that target-key
  value. The kept rows are grouped by target-key value in order of first appearance, and
  when the groups hydrate, the array assigned under the output key has one entry per
  distinct target-key value of the kept rows.
\<close>

theorem belongsToMany_filter_and_group:
  "hasKeys rows (nodeAlias child)
   \<and> getAssociation this (m_name model) (nodeAlias child) h = (Some assoc, h1)
   \<and> a_associationType assoc = BelongsToMany \<and> a_through assoc = Some t
   \<longrightarrow>
   (let parentFk = joinAlias t @ ''.'' @ joinToParentFK this assoc t;
        childFk = joinAlias t @ ''.'' @ joinToChildFK this assoc t;
        targetKey = nodeAlias child @ ''.'' @ childTargetKey assoc;
        parentKey = rowGet r (al @ ''.'' @ parentSourceKey assoc);
        kept = filter (\<lambda>x. rowGet x parentFk = parentKey
                          \<and> \<not> nullish (rowGet x targetKey)
                          \<and> (nullish (rowGet x childFk) \<or> rowGet x childFk = rowGet x targetKey))
                 rows;
        groups = map (\<lambda>k. filter (\<lambda>x. rowGet x targetKey = k) kept)
                   (firstAppearances (map (\<lambda>x. rowGet x targetKey) kept))
    in relevantRows this assoc t al (nodeAlias child) r rows = kept
       \<and> planChild this model al r rows child h = (HydrateAll (outputKey child assoc) groups, h1)
       \<and> (\<forall>objs h2. hydrateGroups this child groups (mapSet ps al result) h1 = (Inr objs, h2)
             \<longrightarrow> length objs = card ((\<lambda>x. rowGet x targetKey) ` set kept)
                 \<and> hydrateChildren this model al r rows ps (child # cs) result h
                     = hydrateChildren this model al r rows ps cs
                         (mapSet result (outputKey child assoc) (Arr (map Obj objs))) h2))"
proof (intro impI)
  assume a: "hasKeys rows (nodeAlias child)
   \<and> getAssociation this (m_name model) (nodeAlias child) h = (Some assoc, h1)
   \<and> a_associationType assoc = BelongsToMany \<and> a_through assoc = Some t"
  let ?targetKey = "nodeAlias child @ ''.'' @ childTargetKey assoc"
  let ?kept = "relevantRows this assoc t al (nodeAlias child) r rows"
  let ?groups = "map (\<lambda>k. filter (\<lambda>x. rowGet x ?targetKey = k) ?kept)
                   (firstAppearances (map (\<lambda>x. rowGet x ?targetKey) ?kept))"
  have grouped: "map snd (belongsToManyGrouped this assoc t al (nodeAlias child) r rows) = ?groups"
    by (simp add: belongsToManyGrouped_def bucketStep_eq foldl_groupingStep map_snd_groupsOf_all)
  have plan: "planChild this model al r rows child h = (HydrateAll (outputKey child assoc) ?groups, h1)"
    using a grouped by (simp add: planChild_def)
  have step: "length objs = card ((\<lambda>x. rowGet x ?targetKey) ` set ?kept)
              \<and> hydrateChildren this model al r rows ps (child # cs) result h
                  = hydrateChildren this model al r rows ps cs
                      (mapSet result (outputKey child assoc) (Arr (map Obj objs))) h2"
    if "hydrateGroups this child ?groups (mapSet ps al result) h1 = (Inr objs, h2)" for objs h2
    using that plan hydrateGroups_length [OF that]
    by (simp add: length_firstAppearances)
  from plan step show "(let parentFk = joinAlias t @ ''.'' @ joinToParentFK this assoc t;
        childFk = joinAlias t @ ''.'' @ joinToChildFK this assoc t;
        targetKey = nodeAlias child @ ''.'' @ childTargetKey assoc;
        parentKey = rowGet r (al @ ''.'' @ parentSourceKey assoc);
        kept = filter (\<lambda>x. rowGet x parentFk = parentKey
                          \<and> \<not> nullish (rowGet x targetKey)
                          \<and> (nullish (rowGet x childFk) \<or> rowGet x childFk = rowGet x targetKey))
                 rows;
        groups = map (\<lambda>k. filter (\<lambda>x. rowGet x targetKey = k) kept)
                   (firstAppearances (map (\<lambda>x. rowGet x targetKey) kept))
    in relevantRows this assoc t al (nodeAlias child) r rows = kept
       \<and> planChild this model al r rows child h = (HydrateAll (outputKey child assoc) groups, h1)
       \<and> (\<forall>objs h2. hydrateGroups this child groups (mapSet ps al result) h1 = (Inr objs, h2)
             \<longrightarrow> length objs = card ((\<lambda>x. rowGet x targetKey) ` set kept)
                 \<and> hydrateChildren this model al r rows ps (child # cs) result h
                     = hydrateChildren this model al r rows ps cs
                         (mapSet result (outputKey child assoc) (Arr (map Obj objs))) h2))"
    unfolding Let_def relevantRows_filter [symmetric] by blast
qed

theorem belongsToMany_filter_and_group_witness:
  "planChild shopModeler customerModel ''Customer'' boughtP1
     [boughtP1, boughtP2, boughtP1, boughtNothing] boughtNode shopHeap
   = (HydrateAll ''Bought'' [[boughtP1, boughtP1], [boughtP2]], shopHeap)"
proof -
  have hyp: "hasKeys [boughtP1, boughtP2, boughtP1, boughtNothing] (nodeAlias boughtNode)
     \<and> getAssociation shopModeler (m_name customerModel) (nodeAlias boughtNode) shopHeap
         = (Some boughtAssociation, shopHeap)
     \<and> a_associationType boughtAssociation = BelongsToMany
     \<and> a_through boughtAssociation = Some boughtThrough"
    by (simp add: hasKeys_def startsWith_def boughtP1_def boughtNode_def nodeAlias_def
          orDefault_def getAssociation_def getAssociations_def ensureAssocMap_def
          shopModeler_eval shopHeap_eval customerModel_def boughtAssociation_def)
  note c = mp [OF belongsToMany_filter_and_group
                    [where rows = "[boughtP1, boughtP2, boughtP1, boughtNothing]"
                       and child = boughtNode and this = shopModeler and model = customerModel
                       and h = shopHeap and ?h1.0 = shopHeap and assoc = boughtAssociation
                       and t = boughtThrough and r = boughtP1 and al = "''Customer''"
                       and ps = "[]" and result = "[]" and cs = "[]"] hyp]
  note p = c [unfolded Let_def, THEN conjunct2, THEN conjunct1]
  have k: "outputKey boughtNode boughtAssociation = ''Bought''"
    by (simp add: outputKey_def boughtNode_def nodeAlias_def orDefault_def)
  have cols: "joinAlias boughtThrough @ ''.'' @ joinToParentFK shopModeler boughtAssociation boughtThrough
                = ''CustomerProduct.CustomerCode''"
             "joinAlias boughtThrough @ ''.'' @ joinToChildFK shopModeler boughtAssociation boughtThrough
                = ''CustomerProduct.ProductCode''"
             "nodeAlias boughtNode @ ''.'' @ childTargetKey boughtAssociation = ''Bought.code''"
             "''Customer'' @ ''.'' @ parentSourceKey boughtAssociation = ''Customer.code''"
    by (simp_all add: joinAlias_def joinToParentFK_def joinToChildFK_def childTargetKey_def
          parentSourceKey_def strOr_def orElse_def orDefault_def boughtThrough_def
          boughtAssociation_def boughtNode_def nodeAlias_def customerProductModel_def)
  from p show ?thesis
    unfolding k cols
    by (simp add: rowGet_def boughtP1_def boughtP2_def boughtNothing_def firstAppearances_def)
qed

section \<open>Independence of a cloned registry\<close>

lemma touchesOnly_refl: "touchesOnly x h h"
  by (simp add: touchesOnly_def)

lemma touchesOnly_trans:
  assumes "touchesOnly x h h1" and "touchesOnly x h1 h2"
  shows "touchesOnly x h h2"
  unfolding touchesOnly_def
proof (intro conjI allI impI ballI)
  show "nextRef h \<le> nextRef h2" using assms by (simp add: touchesOnly_def)
  show "modelMaps h2 a = modelMaps h a" if "a \<noteq> mo_models x" for a
    using assms that by (simp add: touchesOnly_def)
  show "outerMaps h2 a = outerMaps h a" if "a \<noteq> mo_associations x" for a
    using assms that by (simp add: touchesOnly_def)
  show "innerMaps h2 r = innerMaps h r" if "r < nextRef h \<and> r \<notin> set (innerRefs h x)" for r
  proof -
    from assms(1) that have 1: "innerMaps h1 r = innerMaps h r" by (simp add: touchesOnly_def)
    from assms(1) that have "r \<notin> set (innerRefs h1 x)" unfolding touchesOnly_def by fastforce
    moreover from assms(1) that have "r < nextRef h1" by (simp add: touchesOnly_def)
    ultimately have "innerMaps h2 r = innerMaps h1 r" using assms(2) by (simp add: touchesOnly_def)
    with 1 show ?thesis by simp
  qed
  show "r \<in> set (innerRefs h x) \<or> (nextRef h \<le> r \<and> r < nextRef h2)"
    if "r \<in> set (innerRefs h2 x)" for r
  proof -
    from assms(2) that have "r \<in> set (innerRefs h1 x) \<or> (nextRef h1 \<le> r \<and> r < nextRef h2)"
      by (simp add: touchesOnly_def)
    moreover have "nextRef h \<le> nextRef h1" "nextRef h1 \<le> nextRef h2"
      using assms by (simp_all add: touchesOnly_def)
    moreover have "r' \<in> set (innerRefs h x) \<or> (nextRef h \<le> r' \<and> r' < nextRef h1)"
      if "r' \<in> set (innerRefs h1 x)" for r'
      using assms(1) that by (simp add: touchesOnly_def)
    ultimately show ?thesis by fastforce
  qed
qed

lemma snd_mapSet_subset: "snd ` set (mapSet m k v) \<subseteq> insert v (snd ` set m)"
  using set_mapSet_subset [of m k v] by fastforce

lemma ensureAssocMap_touchesOnly: "touchesOnly x h (snd (ensureAssocMap x key h))"
proof (cases "map_of (outerMaps h (mo_associations x)) key")
  case None
  then show ?thesis
    using snd_mapSet_subset [of "outerMaps h (mo_associations x)" key "nextRef h"]
    by (auto simp: touchesOnly_def ensureAssocMap_def newInnerMap_def innerRefs_def)
next
  case (Some r)
  then show ?thesis by (simp add: ensureAssocMap_def touchesOnly_refl)
qed

lemma ensureAssocMap_result:
  assumes "ensureAssocMap x key h = (r, h1)"
  shows "r \<in> set (innerRefs h x) \<or> (r = nextRef h \<and> nextRef h < nextRef h1)"
proof (cases "map_of (outerMaps h (mo_associations x)) key")
  case None
  with assms show ?thesis by (auto simp: ensureAssocMap_def newInnerMap_def)
next
  case (Some r')
  then have "(key, r') \<in> set (outerMaps h (mo_associations x))" by (rule map_of_SomeD)
  with Some assms show ?thesis by (force simp: ensureAssocMap_def innerRefs_def)
qed

lemma addModel_touchesOnly: "touchesOnly x h (addModel x name attrs pk h)"
proof (cases "mapHas (modelMaps h (mo_models x)) name")
  case True
  then show ?thesis by (simp add: addModel_def touchesOnly_refl)
next
  case False
  then show ?thesis
    using snd_mapSet_subset [of "outerMaps h (mo_associations x)" name "nextRef h"]
    by (auto simp: touchesOnly_def addModel_def newInnerMap_def innerRefs_def Let_def)
qed

lemma getModel_touchesOnly: "touchesOnly x h (snd (getModel x name noThrow h))"
  using ensureAssocMap_touchesOnly [of x h name]
  by (auto simp: getModel_def touchesOnly_refl split: option.splits prod.splits)

lemma getModelOrThrow_touchesOnly: "touchesOnly x h (snd (getModelOrThrow x name h))"
  using getModel_touchesOnly [of x h name False]
  by (auto simp: getModelOrThrow_def split: prod.splits sum.splits option.splits)

lemma getSourceAndTarget_touchesOnly: "touchesOnly x h (snd (getSourceAndTarget x s t h))"
proof -
  obtain u h1 where 1: "getModelOrThrow x s h = (u, h1)" by force
  obtain v h2 where 2: "getModelOrThrow x t h1 = (v, h2)" by force
  have a: "touchesOnly x h h1" using getModelOrThrow_touchesOnly [of x h s] 1 by simp
  moreover have "touchesOnly x h1 h2" using getModelOrThrow_touchesOnly [of x h1 t] 2 by simp
  ultimately have "touchesOnly x h h2" by (rule touchesOnly_trans)
  with a show ?thesis
    using 1 2 by (auto simp: getSourceAndTarget_def split: sum.splits)
qed

lemma buildAssociation_touchesOnly: "touchesOnly x h (snd (buildAssociation x s c h))"
proof (cases c)
  case (belongsTo t opts)
  then show ?thesis using getSourceAndTarget_touchesOnly [of x h s t]
    by (auto split: prod.splits sum.splits)
next
  case (hasOne t opts)
  then show ?thesis using getSourceAndTarget_touchesOnly [of x h s t]
    by (auto split: prod.splits sum.splits)
next
  case (hasMany t al opts)
  then show ?thesis using getSourceAndTarget_touchesOnly [of x h s t]
    by (auto simp: touchesOnly_refl split: prod.splits sum.splits)
next
  case (belongsToMany t thr opts to)
  obtain u h1 where 1: "getSourceAndTarget x s t h = (u, h1)" by force
  obtain v h2 where 2: "getModel x thr True h1 = (v, h2)" by force
  have a: "touchesOnly x h h1" using getSourceAndTarget_touchesOnly [of x h s t] 1 by simp
  moreover have "touchesOnly x h1 h2" using getModel_touchesOnly [of x h1 thr True] 2 by simp
  ultimately have "touchesOnly x h h2" by (rule touchesOnly_trans)
  with a belongsToMany 1 2 show ?thesis
    by (auto simp: Let_def split: prod.splits sum.splits option.splits)
qed

lemma runBuilder_touchesOnly: "touchesOnly x h (snd (runBuilder x s cs acc h))"
proof (induction cs arbitrary: acc h)
  case Nil
  show ?case by (simp add: touchesOnly_refl)
next
  case (Cons c cs)
  obtain u h1 where 1: "buildAssociation x s c h = (u, h1)" by force
  have a: "touchesOnly x h h1" using buildAssociation_touchesOnly [of x h s c] 1 by simp
  show ?case
  proof (cases u)
    case (Inl e)
    with 1 a show ?thesis by simp
  next
    case (Inr as)
    with 1 have "runBuilder x s (c # cs) acc h = runBuilder x s cs (acc @ [as]) h1" by simp
    with touchesOnly_trans [OF a Cons.IH [of h1 "acc @ [as]"]] show ?thesis by simp
  qed
qed

lemma registerAssociation_touchesOnly: "touchesOnly x h (registerAssociation x s h a)"
proof -
  obtain r h1 where e: "ensureAssocMap x s h = (r, h1)" by force
  have t1: "touchesOnly x h h1" using ensureAssocMap_touchesOnly [of x h s] e by simp
  from ensureAssocMap_result [OF e]
  have r: "r \<in> set (innerRefs h x) \<or> (r = nextRef h \<and> nextRef h < nextRef h1)" .
  let ?h2 = "h1\<lparr> innerMaps := (innerMaps h1)(r := mapSet (innerMaps h1 r) (a_as a) a) \<rparr>"
  have "touchesOnly x h ?h2"
    using t1 r by (auto simp: touchesOnly_def innerRefs_def)
  with t1 e show ?thesis by (simp add: registerAssociation_def)
qed

lemma associate_touchesOnly: "touchesOnly x h (snd (associate x s calls h))"
proof -
  obtain u h1 where rb: "runBuilder x s calls [] h = (u, h1)" by force
  have t1: "touchesOnly x h h1" using runBuilder_touchesOnly [of x h s calls "[]"] rb by simp
  have "touchesOnly x k (foldl (registerAssociation x s) k as)" for k as
  proof (induction as arbitrary: k)
    case Nil
    show ?case by (simp add: touchesOnly_refl)
  next
    case (Cons a as)
    from touchesOnly_trans [OF registerAssociation_touchesOnly [of x k s a]
                              Cons.IH [of "registerAssociation x s k a"]]
    show ?case by simp
  qed
  from touchesOnly_trans [OF t1 this] t1 rb show ?thesis
    by (cases u) (simp_all add: associate_def)
qed

lemma independent_sym: "independent h x y \<Longrightarrow> independent h y x"
  by (auto simp: independent_def list_all_iff)

lemma touchesOnly_independent:
  assumes "independent h x y" and "touchesOnly x h h'"
  shows "snapshot h' y = snapshot h y \<and> independent h' x y"
proof -
  from assms(1) have vx: "validModeler x h" and vy: "validModeler y h"
    and m: "mo_models x \<noteq> mo_models y" and a: "mo_associations x \<noteq> mo_associations y"
    and d: "\<forall>r \<in> set (innerRefs h x). r \<notin> set (innerRefs h y)"
    by (simp_all add: independent_def list_all_iff)
  from assms(2) m have mm: "modelMaps h' (mo_models y) = modelMaps h (mo_models y)"
    by (simp add: touchesOnly_def)
  from assms(2) a have om: "outerMaps h' (mo_associations y) = outerMaps h (mo_associations y)"
    by (simp add: touchesOnly_def)
  then have iy: "innerRefs h' y = innerRefs h y" by (simp add: innerRefs_def)
  have im: "innerMaps h' r = innerMaps h r" if "r \<in> set (innerRefs h y)" for r
  proof -
    from vy that have "r < nextRef h" by (simp add: validModeler_def list_all_iff)
    moreover from d that have "r \<notin> set (innerRefs h x)" by blast
    ultimately show ?thesis using assms(2) by (simp add: touchesOnly_def)
  qed
  have "map (\<lambda>(n, r). (n, innerMaps h' r)) (outerMaps h (mo_associations y))
        = map (\<lambda>(n, r). (n, innerMaps h r)) (outerMaps h (mo_associations y))"
  proof (rule map_cong [OF refl])
    fix p assume "p \<in> set (outerMaps h (mo_associations y))"
    then have "snd p \<in> set (innerRefs h y)" by (simp add: innerRefs_def)
    from im [OF this]
    show "(case p of (n, r) \<Rightarrow> (n, innerMaps h' r)) = (case p of (n, r) \<Rightarrow> (n, innerMaps h r))"
      by (cases p) simp
  qed
  with mm om have snap: "snapshot h' y = snapshot h y" by (simp add: snapshot_def)
  from assms(2) have le: "nextRef h \<le> nextRef h'" by (simp add: touchesOnly_def)
  have new: "r \<in> set (innerRefs h x) \<or> (nextRef h \<le> r \<and> r < nextRef h')"
    if "r \<in> set (innerRefs h' x)" for r
    using assms(2) that by (simp add: touchesOnly_def)
  have vy': "validModeler y h'"
    using vy le iy by (auto simp: validModeler_def list_all_iff)
  have vx': "validModeler x h'"
    using vx le new by (fastforce simp: validModeler_def list_all_iff)
  have d': "\<forall>r \<in> set (innerRefs h' x). r \<notin> set (innerRefs h' y)"
  proof
    fix r assume "r \<in> set (innerRefs h' x)"
    from new [OF this] show "r \<notin> set (innerRefs h' y)"
    proof
      assume "r \<in> set (innerRefs h x)"
      with d iy show ?thesis by simp
    next
      assume "nextRef h \<le> r \<and> r < nextRef h'"
      with vy iy show ?thesis by (auto simp: validModeler_def list_all_iff)
    qed
  qed
  from vx' vy' m a d' have "independent h' x y" by (simp add: independent_def list_all_iff)
  with snap show ?thesis by simp
qed

lemma cloneModel_inv:
  assumes "cloneInv c h0 h"
  shows "cloneInv c h0 (cloneModel c h entry)"
proof -
  let ?h' = "cloneModel c h entry"
  have nr: "nextRef ?h' = Suc (nextRef h)"
    by (simp add: cloneModel_def newInnerMap_def Let_def)
  have refs: "set (innerRefs ?h' c) \<subseteq> insert (nextRef h) (set (innerRefs h c))"
    using snd_mapSet_subset [of "outerMaps h (mo_associations c)" "fst entry" "nextRef h"]
    by (auto simp: cloneModel_def newInnerMap_def innerRefs_def Let_def)
  have inner: "innerMaps ?h' = (innerMaps h)(nextRef h := [])"
    by (simp add: cloneModel_def newInnerMap_def Let_def)
  have low: "modelMaps ?h' a = modelMaps h a \<and> outerMaps ?h' a = outerMaps h a"
    if "a < nextRef h0" for a
    using assms that by (auto simp: cloneModel_def newInnerMap_def Let_def cloneInv_def)
  have le: "nextRef h0 \<le> nextRef h" using assms by (simp add: cloneInv_def)
  show ?thesis
    unfolding cloneInv_def
  proof (intro conjI ballI allI impI)
    show "nextRef h0 \<le> mo_models c" "nextRef h0 \<le> mo_associations c"
      using assms by (simp_all add: cloneInv_def)
    show "mo_models c < nextRef ?h'" "mo_associations c < nextRef ?h'"
      using assms nr by (simp_all add: cloneInv_def)
  next
    fix r assume "r \<in> set (innerRefs ?h' c)"
    with refs have "r = nextRef h \<or> r \<in> set (innerRefs h c)" by blast
    then show "nextRef h0 \<le> r" "r < nextRef ?h'"
      using assms nr le by (auto simp: cloneInv_def)
  next
    fix r e q
    assume r: "r \<in> set (innerRefs ?h' c)" and e: "e \<in> set (innerMaps ?h' r)"
       and q: "q \<in> set (associationRefs (snd e))"
    from r refs have "r = nextRef h \<or> r \<in> set (innerRefs h c)" by blast
    then show "nextRef h0 \<le> q"
    proof
      assume "r = nextRef h"
      with e inner show ?thesis by simp
    next
      assume rin: "r \<in> set (innerRefs h c)"
      with assms have "r \<noteq> nextRef h" by (auto simp: cloneInv_def)
      with e inner have "e \<in> set (innerMaps h r)" by simp
      with rin q assms show ?thesis unfolding cloneInv_def by blast
    qed
  next
    fix a assume a: "a < nextRef h0"
    with le have "a \<noteq> nextRef h" by simp
    with a low [OF a] inner assms
    show "modelMaps ?h' a = modelMaps h0 a" "outerMaps ?h' a = outerMaps h0 a"
         "innerMaps ?h' a = innerMaps h0 a"
      by (simp_all add: cloneInv_def)
  qed
qed

lemma foldl_cloneModel_inv:
  "cloneInv c h0 h \<Longrightarrow> cloneInv c h0 (foldl (cloneModel c) h entries)"
  by (induction entries arbitrary: h) (simp_all add: cloneModel_inv)

lemma wrap_ref:
  assumes "wrap c name h = Inr im"
  shows "m_associations im \<in> set (innerRefs h c)"
proof -
  from assms obtain r where "map_of (outerMaps h (mo_associations c)) name = Some r"
    and "m_associations im = r"
    by (auto simp: wrap_def split: option.splits)
  then show ?thesis using map_of_SomeD [of "outerMaps h (mo_associations c)" name r]
    by (force simp: innerRefs_def)
qed

lemma cloneAssociation_refs:
  assumes "cloneAssociation c src assoc h = Inr entry"
  shows "set (associationRefs entry) \<subseteq> set (innerRefs h c)"
proof -
  from assms obtain source target where s: "wrap c src h = Inr source"
    and t: "wrap c (m_name (a_target assoc)) h = Inr target"
    and src: "a_source entry = source" and tgt: "a_target entry = target"
    by (auto simp: cloneAssociation_def split: sum.splits option.splits)
  have "m_associations (t_model t') \<in> set (innerRefs h c)" if "a_through entry = Some t'" for t'
    using assms that wrap_ref
    by (auto simp: cloneAssociation_def split: sum.splits option.splits)
  with wrap_ref [OF s] wrap_ref [OF t] src tgt show ?thesis
    by (auto simp: associationRefs_def split: option.splits)
qed

text \<open>
  The inner loop writes the map \<open>clonedMap\<close> only, and what it stores there refers to
  maps of the registry under construction.
\<close>

lemma cloneEntries_frame:
  assumes "cloneEntries c src entries clonedMap h = (u, h')"
  shows "modelMaps h' = modelMaps h \<and> outerMaps h' = outerMaps h \<and> nextRef h' = nextRef h
         \<and> (\<forall>r. r \<noteq> clonedMap \<longrightarrow> innerMaps h' r = innerMaps h r)
         \<and> (\<forall>e \<in> set (innerMaps h' clonedMap).
               e \<in> set (innerMaps h clonedMap)
               \<or> set (associationRefs (snd e)) \<subseteq> set (innerRefs h c))"
  using assms
proof (induction entries arbitrary: h)
  case Nil
  then show ?case by simp
next
  case (Cons p entries)
  obtain as assoc where p: "p = (as, assoc)" by (cases p)
  show ?case
  proof (cases "cloneAssociation c src assoc h")
    case (Inl e)
    with Cons.prems p show ?thesis by simp
  next
    case (Inr entry)
    let ?h1 = "h\<lparr> innerMaps := (innerMaps h)(clonedMap := mapSet (innerMaps h clonedMap) as entry) \<rparr>"
    from Cons.prems p Inr have "cloneEntries c src entries clonedMap ?h1 = (u, h')" by simp
    from Cons.IH [OF this]
    have ih: "modelMaps h' = modelMaps ?h1 \<and> outerMaps h' = outerMaps ?h1 \<and> nextRef h' = nextRef ?h1
         \<and> (\<forall>r. r \<noteq> clonedMap \<longrightarrow> innerMaps h' r = innerMaps ?h1 r)
         \<and> (\<forall>e \<in> set (innerMaps h' clonedMap).
               e \<in> set (innerMaps ?h1 clonedMap)
               \<or> set (associationRefs (snd e)) \<subseteq> set (innerRefs ?h1 c))" .
    have same: "innerRefs ?h1 c = innerRefs h c" by (simp add: innerRefs_def)
    have new: "e \<in> set (innerMaps h clonedMap) \<or> e = (as, entry)"
      if "e \<in> set (innerMaps ?h1 clonedMap)" for e
      using that set_mapSet_subset [of "innerMaps h clonedMap" as entry] by auto
    from cloneAssociation_refs [OF Inr]
    have fresh: "set (associationRefs entry) \<subseteq> set (innerRefs h c)" .
    have "e \<in> set (innerMaps h clonedMap) \<or> set (associationRefs (snd e)) \<subseteq> set (innerRefs h c)"
      if "e \<in> set (innerMaps h' clonedMap)" for e
    proof -
      from ih that same
      have "e \<in> set (innerMaps ?h1 clonedMap) \<or> set (associationRefs (snd e)) \<subseteq> set (innerRefs h c)"
        by simp
      with new [of e] fresh show ?thesis by auto
    qed
    with ih show ?thesis by simp
  qed
qed

lemma cloneAssocMaps_inv:
  "cloneInv c h0 h \<Longrightarrow> cloneInv c h0 (snd (cloneAssocMaps c ms h))"
proof (induction ms arbitrary: h)
  case Nil
  then show ?case by simp
next
  case (Cons p ms)
  obtain srcName assocMap where p: "p = (srcName, assocMap)" by (cases p)
  let ?n = "nextRef h"
  let ?h1 = "h\<lparr> innerMaps := (innerMaps h)(?n := []), nextRef := Suc ?n \<rparr>"
  obtain u h2 where ce: "cloneEntries c srcName (innerMaps ?h1 assocMap) ?n ?h1 = (u, h2)" by force
  from cloneEntries_frame [OF ce]
  have mm: "modelMaps h2 = modelMaps h" and om: "outerMaps h2 = outerMaps h"
    and nr: "nextRef h2 = Suc ?n"
    and other: "\<And>r. r \<noteq> ?n \<Longrightarrow> innerMaps h2 r = innerMaps h r"
    and filled: "\<And>e. e \<in> set (innerMaps h2 ?n) \<Longrightarrow>
                  set (associationRefs (snd e)) \<subseteq> set (innerRefs h c)"
    by (auto simp: innerRefs_def)
  from Cons.prems have le: "nextRef h0 \<le> ?n" by (simp add: cloneInv_def)
  have inv2: "cloneInv c h0 h2"
    using Cons.prems mm om nr other le
    by (auto simp: cloneInv_def innerRefs_def)
  show ?case
  proof (cases u)
    case (Inl e)
    with p ce inv2 show ?thesis by (simp add: newInnerMap_def)
  next
    case (Inr v)
    let ?h3 = "h2\<lparr> outerMaps := (outerMaps h2)
                 (mo_associations c := mapSet (outerMaps h2 (mo_associations c)) srcName ?n) \<rparr>"
    have refs: "set (innerRefs ?h3 c) \<subseteq> insert ?n (set (innerRefs h c))"
      using snd_mapSet_subset [of "outerMaps h (mo_associations c)" srcName ?n] om
      by (auto simp: innerRefs_def)
    have inv3: "cloneInv c h0 ?h3"
      unfolding cloneInv_def
    proof (intro conjI ballI allI impI)
      show "nextRef h0 \<le> mo_models c" "nextRef h0 \<le> mo_associations c"
        using Cons.prems by (simp_all add: cloneInv_def)
      show "mo_models c < nextRef ?h3" "mo_associations c < nextRef ?h3"
        using Cons.prems nr by (simp_all add: cloneInv_def)
    next
      fix r assume "r \<in> set (innerRefs ?h3 c)"
      with refs have "r = ?n \<or> r \<in> set (innerRefs h c)" by blast
      then show "nextRef h0 \<le> r" "r < nextRef ?h3"
        using Cons.prems nr le by (auto simp: cloneInv_def)
    next
      fix r e q
      assume r: "r \<in> set (innerRefs ?h3 c)" and e: "e \<in> set (innerMaps ?h3 r)"
         and q: "q \<in> set (associationRefs (snd e))"
      from r refs have "r = ?n \<or> r \<in> set (innerRefs h c)" by blast
      then show "nextRef h0 \<le> q"
      proof
        assume "r = ?n"
        with e have "e \<in> set (innerMaps h2 ?n)" by simp
        from filled [OF this] q have "q \<in> set (innerRefs h c)" by blast
        with Cons.prems show ?thesis by (simp add: cloneInv_def)
      next
        assume rin: "r \<in> set (innerRefs h c)"
        with Cons.prems have "r \<noteq> ?n" by (auto simp: cloneInv_def)
        with e other have "e \<in> set (innerMaps h r)" by simp
        with rin q Cons.prems show ?thesis unfolding cloneInv_def by blast
      qed
    next
      fix a assume a: "a < nextRef h0"
      with Cons.prems have "a \<noteq> mo_associations c" "a \<noteq> ?n" by (auto simp: cloneInv_def)
      with a mm om other Cons.prems
      show "modelMaps ?h3 a = modelMaps h0 a" "outerMaps ?h3 a = outerMaps h0 a"
           "innerMaps ?h3 a = innerMaps h0 a"
        by (simp_all add: cloneInv_def)
    qed
    from Cons.IH [OF inv3] p ce Inr show ?thesis by (simp add: newInnerMap_def)
  qed
qed

lemma cloneFromModeler_inv:
  assumes "cloneFromModeler opts source h0 = (Inr c, h1)"
  shows "cloneInv c h0 h1"
proof -
  let ?n = "nextRef h0"
  let ?h2 = "h0\<lparr> modelMaps := (modelMaps h0)(?n := []), outerMaps := (outerMaps h0)(Suc ?n := []),
                 nextRef := Suc (Suc ?n) \<rparr>"
  let ?c = "\<lparr> mo_models = ?n, mo_associations = Suc ?n, mo_options = opts \<rparr>"
  have start: "cloneInv ?c h0 ?h2" by (simp add: cloneInv_def innerRefs_def)
  let ?h3 = "foldl (cloneModel ?c) ?h2 (modelMaps ?h2 (mo_models source))"
  from foldl_cloneModel_inv [OF start] have inv3: "cloneInv ?c h0 ?h3" .
  from assms have c: "c = ?c" and h1: "h1 = snd (cloneAssocMaps ?c (outerMaps ?h3 (mo_associations source)) ?h3)"
    by (auto simp: cloneFromModeler_def newModelMap_def newOuterMap_def Let_def
             split: prod.splits sum.splits)
  from cloneAssocMaps_inv [OF inv3] c h1 show ?thesis by simp
qed

lemma newHydraModelerFrom_inv:
  assumes "newHydraModelerFrom orig h0 = (Inr c, h1)"
  shows "cloneInv c h0 h1"
proof -
  let ?n = "nextRef h0"
  let ?h2 = "h0\<lparr> modelMaps := (modelMaps h0)(?n := []), outerMaps := (outerMaps h0)(Suc ?n := []),
                 nextRef := Suc (Suc ?n) \<rparr>"
  from assms have "cloneFromModeler (mo_options orig) orig ?h2 = (Inr c, h1)"
    by (simp add: newHydraModelerFrom_def newModelMap_def newOuterMap_def)
  from cloneFromModeler_inv [OF this] have inv: "cloneInv c ?h2 h1" .
  then have refs: "\<forall>r \<in> set (innerRefs h1 c). \<forall>e \<in> set (innerMaps h1 r).
                     \<forall>q \<in> set (associationRefs (snd e)). Suc (Suc ?n) \<le> q"
    by (simp add: cloneInv_def)
  have "\<forall>r \<in> set (innerRefs h1 c). \<forall>e \<in> set (innerMaps h1 r).
          \<forall>q \<in> set (associationRefs (snd e)). ?n \<le> q"
  proof (intro ballI)
    fix r e q
    assume "r \<in> set (innerRefs h1 c)" "e \<in> set (innerMaps h1 r)"
           "q \<in> set (associationRefs (snd e))"
    with refs have "Suc (Suc ?n) \<le> q" by blast
    then show "?n \<le> q" by simp
  qed
  moreover from inv have "?n \<le> mo_models c \<and> mo_models c < nextRef h1
      \<and> ?n \<le> mo_associations c \<and> mo_associations c < nextRef h1
      \<and> (\<forall>r \<in> set (innerRefs h1 c). ?n \<le> r \<and> r < nextRef h1)
      \<and> (\<forall>a < ?n. modelMaps h1 a = modelMaps h0 a \<and> outerMaps h1 a = outerMaps h0 a
                       \<and> innerMaps h1 a = innerMaps h0 a)"
    by (auto simp: cloneInv_def)
  ultimately show ?thesis by (simp add: cloneInv_def)
qed

lemma cloneInv_independent:
  assumes "validModeler orig h0" and "cloneInv c h0 h1"
  shows "independent h1 orig c \<and> snapshot h1 orig = snapshot h0 orig"
proof -
  from assms(1) have mo: "mo_models orig < nextRef h0" and ao: "mo_associations orig < nextRef h0"
    and ro: "\<forall>r \<in> set (innerRefs h0 orig). r < nextRef h0"
    by (simp_all add: validModeler_def list_all_iff)
  from assms(2) ao have om: "outerMaps h1 (mo_associations orig) = outerMaps h0 (mo_associations orig)"
    by (simp add: cloneInv_def)
  then have io: "innerRefs h1 orig = innerRefs h0 orig" by (simp add: innerRefs_def)
  from assms(2) mo have mm: "modelMaps h1 (mo_models orig) = modelMaps h0 (mo_models orig)"
    by (simp add: cloneInv_def)
  have "map (\<lambda>(n, r). (n, innerMaps h1 r)) (outerMaps h0 (mo_associations orig))
        = map (\<lambda>(n, r). (n, innerMaps h0 r)) (outerMaps h0 (mo_associations orig))"
  proof (rule map_cong [OF refl])
    fix p assume "p \<in> set (outerMaps h0 (mo_associations orig))"
    then have "snd p \<in> set (innerRefs h0 orig)" by (simp add: innerRefs_def)
    with ro have "snd p < nextRef h0" by blast
    with assms(2) have "innerMaps h1 (snd p) = innerMaps h0 (snd p)" by (simp add: cloneInv_def)
    then show "(case p of (n, r) \<Rightarrow> (n, innerMaps h1 r)) = (case p of (n, r) \<Rightarrow> (n, innerMaps h0 r))"
      by (cases p) simp
  qed
  with mm om have snap: "snapshot h1 orig = snapshot h0 orig" by (simp add: snapshot_def)
  have le: "nextRef h0 \<le> nextRef h1" using assms(2) by (simp add: cloneInv_def)
  have "validModeler orig h1"
    using mo ao ro io le by (auto simp: validModeler_def list_all_iff)
  moreover have "validModeler c h1"
    using assms(2) by (auto simp: validModeler_def list_all_iff cloneInv_def)
  moreover have "mo_models orig \<noteq> mo_models c" "mo_associations orig \<noteq> mo_associations c"
    using assms(2) mo ao by (auto simp: cloneInv_def)
  moreover have "\<forall>r \<in> set (innerRefs h1 orig). r \<notin> set (innerRefs h1 c)"
    using assms(2) ro io by (fastforce simp: cloneInv_def)
  ultimately have "independent h1 orig c" by (simp add: independent_def list_all_iff)
  with snap show ?thesis by simp
qed

text \<open>
  C8. The copy constructor, run on a registry whose maps are all allocated, yields a
  registry that shares no map with the original: its model map, its association maps
  and the maps referred to from inside its associations were all created by the copy
  constructor, and the original is left as it was. For two registries that share no
  map, adding a model or declaring associations on one leaves the models and
  associations of the other unchanged, and the two still share no map afterwards, so
  this holds for every later sequence of such calls on either registry.
\<close>

theorem clone_is_independent:
  "(validModeler orig h0 \<and> newHydraModelerFrom orig h0 = (Inr c, h1)
      \<longrightarrow> independent h1 orig c \<and> independent h1 c orig
          \<and> snapshot h1 orig = snapshot h0 orig
          \<and> (\<forall>r \<in> set (innerRefs h1 c). \<forall>e \<in> set (innerMaps h1 r).
                \<forall>q \<in> set (associationRefs (snd e)). nextRef h0 \<le> q))
   \<and> (independent h x y
      \<longrightarrow> snapshot (addModel x name attrs pk h) y = snapshot h y
          \<and> independent (addModel x name attrs pk h) x y
          \<and> independent (addModel x name attrs pk h) y x
          \<and> snapshot (snd (associate x s calls h)) y = snapshot h y
          \<and> independent (snd (associate x s calls h)) x y
          \<and> independent (snd (associate x s calls h)) y x)"
proof (intro conjI impI)
  assume a: "validModeler orig h0 \<and> newHydraModelerFrom orig h0 = (Inr c, h1)"
  then have inv: "cloneInv c h0 h1" using newHydraModelerFrom_inv by blast
  from cloneInv_independent [OF _ inv] a
  have i: "independent h1 orig c" and s: "snapshot h1 orig = snapshot h0 orig" by simp_all
  show "independent h1 orig c" by (rule i)
  show "independent h1 c orig" using i by (rule independent_sym)
  show "snapshot h1 orig = snapshot h0 orig" by (rule s)
  show "\<forall>r \<in> set (innerRefs h1 c). \<forall>e \<in> set (innerMaps h1 r).
          \<forall>q \<in> set (associationRefs (snd e)). nextRef h0 \<le> q"
    using inv by (simp add: cloneInv_def)
next
  assume i: "independent h x y"
  from touchesOnly_independent [OF i addModel_touchesOnly [of x h name attrs pk]]
  show "snapshot (addModel x name attrs pk h) y = snapshot h y"
    and a: "independent (addModel x name attrs pk h) x y" by simp_all
  show "independent (addModel x name attrs pk h) y x" using a by (rule independent_sym)
  from touchesOnly_independent [OF i associate_touchesOnly [of x h s calls]]
  show "snapshot (snd (associate x s calls h)) y = snapshot h y"
    and b: "independent (snd (associate x s calls h)) x y" by simp_all
  show "independent (snd (associate x s calls h)) y x" using b by (rule independent_sym)
qed

lemma shopClone_eval: "fst (newHydraModelerFrom shopModeler shopHeap) = Inr shopClone"
  by (simp add: newHydraModelerFrom_def cloneFromModeler_def newModelMap_def newOuterMap_def
        newInnerMap_def shopModeler_eval shopHeap_eval shopClone_def cloneModel_def
        newHydraModel_def filterValidAttributes_def mapHas_def Let_def wrap_def
        cloneAssociation_def addressAssociation_def productsAssociation_def
        boughtAssociation_def boughtThrough_def customerModel_def addressModel_def
        productModel_def customerProductModel_def)

theorem clone_is_independent_witness:
  "newHydraModelerFrom shopModeler shopHeap = (Inr shopClone, shopCloneHeap)
   \<and> snapshot (snd (associate shopModeler ''Customer'' [billingCall] shopCloneHeap)) shopClone
       = snapshot shopCloneHeap shopClone
   \<and> snapshot (snd (associate shopClone ''Customer'' [billingCall] shopCloneHeap)) shopModeler
       = snapshot shopCloneHeap shopModeler"
proof -
  have v: "validModeler shopModeler shopHeap"
    by (simp add: validModeler_def innerRefs_def shopModeler_eval shopHeap_eval)
  have n: "newHydraModelerFrom shopModeler shopHeap = (Inr shopClone, shopCloneHeap)"
    using shopClone_eval by (simp add: shopCloneHeap_def prod_eq_iff)
  from clone_is_independent [of shopModeler shopHeap shopClone shopCloneHeap] v n
  have i: "independent shopCloneHeap shopModeler shopClone"
    and j: "independent shopCloneHeap shopClone shopModeler" by simp_all
  from clone_is_independent [where h = shopCloneHeap and x = shopModeler and y = shopClone
                               and s = "''Customer''" and calls = "[billingCall]"] i
  have 1: "snapshot (snd (associate shopModeler ''Customer'' [billingCall] shopCloneHeap)) shopClone
           = snapshot shopCloneHeap shopClone" by simp
  from clone_is_independent [where h = shopCloneHeap and x = shopClone and y = shopModeler
                               and s = "''Customer''" and calls = "[billingCall]"] j
  have 2: "snapshot (snd (associate shopClone ''Customer'' [billingCall] shopCloneHeap)) shopModeler
           = snapshot shopCloneHeap shopModeler" by simp
  from n 1 2 show ?thesis by simp
qed

text \<open>The copy constructor hands the shape of the original on to the clone.\<close>

lemma registryOk_cloneModel:
  assumes "registryOk c h" and "hm_name (snd entry) = fst entry"
  shows "registryOk c (cloneModel c h entry)"
proof -
  let ?cloned = "newHydraModel (hm_name (snd entry)) (hm_attributes (snd entry))
                   (Some (hm_primaryKey (snd entry)))"
  have "hm_name m = n \<and> (n = fst entry \<or> mapHas (outerMaps h (mo_associations c)) n)"
    if "(n, m) \<in> set (mapSet (modelMaps h (mo_models c)) (fst entry) ?cloned)" for n m
  proof -
    from that set_mapSet_subset
    have "(n, m) = (fst entry, ?cloned) \<or> (n, m) \<in> set (modelMaps h (mo_models c))"
      by fastforce
    then show ?thesis
      using assms by (auto simp: registryOk_def list_all_iff newHydraModel_def Let_def)
  qed
  then show ?thesis
    by (auto simp: registryOk_def list_all_iff cloneModel_def newInnerMap_def mapHas_mapSet Let_def)
qed

lemma registryOk_foldl_cloneModel:
  "registryOk c h \<Longrightarrow> \<forall>e \<in> set entries. hm_name (snd e) = fst e \<Longrightarrow>
   registryOk c (foldl (cloneModel c) h entries)"
  by (induction entries arbitrary: h) (simp_all add: registryOk_cloneModel)

lemma registryOk_cloneAssocMaps:
  "registryOk c h \<Longrightarrow> registryOk c (snd (cloneAssocMaps c ms h))"
proof (induction ms arbitrary: h)
  case Nil
  then show ?case by simp
next
  case (Cons p ms)
  obtain srcName assocMap where p: "p = (srcName, assocMap)" by (cases p)
  let ?n = "nextRef h"
  let ?h1 = "h\<lparr> innerMaps := (innerMaps h)(?n := []), nextRef := Suc ?n \<rparr>"
  obtain u h2 where ce: "cloneEntries c srcName (innerMaps ?h1 assocMap) ?n ?h1 = (u, h2)" by force
  from cloneEntries_frame [OF ce]
  have mm: "modelMaps h2 = modelMaps h" and om: "outerMaps h2 = outerMaps h" by simp_all
  with Cons.prems have ok2: "registryOk c h2" by (simp add: registryOk_def)
  show ?case
  proof (cases u)
    case (Inl e)
    with p ce ok2 show ?thesis by (simp add: newInnerMap_def)
  next
    case (Inr v)
    let ?h3 = "h2\<lparr> outerMaps := (outerMaps h2)
                 (mo_associations c := mapSet (outerMaps h2 (mo_associations c)) srcName ?n) \<rparr>"
    from ok2 have "registryOk c ?h3"
      by (auto simp: registryOk_def list_all_iff mapHas_mapSet)
    from Cons.IH [OF this] p ce Inr show ?thesis by (simp add: newInnerMap_def)
  qed
qed

lemma registryOk_clone:
  assumes "registryOk orig h0" and "newHydraModelerFrom orig h0 = (Inr c, h1)"
  shows "registryOk c h1"
proof -
  let ?n = "nextRef h0"
  let ?h2 = "h0\<lparr> modelMaps := (modelMaps h0)(?n := [], Suc (Suc ?n) := []),
                 outerMaps := (outerMaps h0)(Suc ?n := [], Suc (Suc (Suc ?n)) := []),
                 nextRef := Suc (Suc (Suc (Suc ?n))) \<rparr>"
  let ?c = "\<lparr> mo_models = Suc (Suc ?n), mo_associations = Suc (Suc (Suc ?n)),
              mo_options = mo_options orig \<rparr>"
  let ?h3 = "foldl (cloneModel ?c) ?h2 (modelMaps ?h2 (mo_models orig))"
  from assms(2) have c: "c = ?c"
    and h1: "h1 = snd (cloneAssocMaps ?c (outerMaps ?h3 (mo_associations orig)) ?h3)"
    by (auto simp: newHydraModelerFrom_def cloneFromModeler_def newModelMap_def newOuterMap_def
             Let_def split: prod.splits sum.splits)
  have start: "registryOk ?c ?h2" by (simp add: registryOk_def)
  have "\<forall>e \<in> set (modelMaps ?h2 (mo_models orig)). hm_name (snd e) = fst e"
    using assms(1) by (auto simp: registryOk_def list_all_iff)
  from registryOk_foldl_cloneModel [OF start this] have "registryOk ?c ?h3" .
  from registryOk_cloneAssocMaps [OF this] c h1 show ?thesis by simp
qed

section \<open>Scenarios\<close>

text \<open>
  The model run on the shop registry: a customer with its address (\<open>BelongsTo\<close>), and
  two rows of one customer with two products (\<open>HasMany\<close>).
\<close>

lemma scenario_belongsTo:
  "fst (hydrate shopModeler
          [[(''Customer.code'', Str ''C1''), (''Customer.name'', Str ''Alice''),
            (''Address.code'', Str ''A1''), (''Address.street'', Str ''Main'')]]
          (Node ''Customer'' None None [addressNode]) shopHeap)
   = Inr [[(''code'', Prim (Str ''C1'')), (''name'', Prim (Str ''Alice'')),
           (''Address'', Obj [(''code'', Prim (Str ''A1'')), (''street'', Prim (Str ''Main''))])]]"
  by (simp add: hydrate_def allObjectsHaveSameProperties_def
       Hydrator_hydrate_def checkAllSchemaAliasesPresent_def columnPrefix_def nodeAlias_def
       orDefault_def getModel_def ensureAssocMap_def shopModeler_eval shopHeap_eval
       groupRowsByPK_def mapHas_def groupStep_def rowGet_def Let_def copyAttributes_def
       objectKeys_def addressNode_def planChild_def hasKeys_def startsWith_def
       getAssociation_def getAssociations_def outputKey_def addressAssociation_def
       addressModel_def customerModel_def)

lemma scenario_hasMany:
  "fst (hydrate shopModeler
          [[(''Customer.code'', Str ''C1''), (''Products.code'', Str ''P1'')],
           [(''Customer.code'', Str ''C1''), (''Products.code'', Str ''P2'')]]
          (Node ''Customer'' None None [productsNode]) shopHeap)
   = Inr [[(''code'', Prim (Str ''C1'')),
           (''Products'', Arr [Obj [(''code'', Prim (Str ''P1''))],
                               Obj [(''code'', Prim (Str ''P2''))]])]]"
  by (simp add: hydrate_def allObjectsHaveSameProperties_def
       Hydrator_hydrate_def checkAllSchemaAliasesPresent_def columnPrefix_def nodeAlias_def
       orDefault_def getModel_def ensureAssocMap_def shopModeler_eval shopHeap_eval
       groupRowsByPK_def mapHas_def groupStep_def rowGet_def Let_def copyAttributes_def
       objectKeys_def productsNode_def planChild_def hasKeys_def startsWith_def
       getAssociation_def getAssociations_def outputKey_def productsAssociation_def
       productModel_def customerModel_def)

end
